theory Spec2Isabelle
  imports Main "HOL-Library.Word"
begin

text \<open>
  The preset \<open>exp-base-auth-stream\<close> of blinksocks
  (\<open>src/presets/exp-base-auth-stream.js\<close>): address delivery, HMAC authentication and
  stream encryption in one handshake frame; and \<open>obtainConfig\<close> of \<open>bin/bootstrap.js\<close>.
  The definitions come first, the model evaluated at concrete inputs next, and then the
  properties, one section for each.
\<close>

section \<open>Buffers\<close>

text \<open>
  A Node \<open>Buffer\<close> is a list of bytes. \<open>buf.slice(start, end)\<close> clamps both
  indices to the buffer; a negative index counts from the end. JavaScript's \<open>-0\<close>
  is \<open>0\<close>, so \<open>buf.slice(0, -0)\<close> is the empty buffer.
\<close>

type_synonym byte = "8 word"
type_synonym buffer = "byte list"

definition clamp_index :: "int \<Rightarrow> nat \<Rightarrow> nat" where
  "clamp_index i n = (if i < 0 then nat (max 0 (int n + i)) else min (nat i) n)"

definition slice_buf :: "'a list \<Rightarrow> int \<Rightarrow> int \<Rightarrow> 'a list" where
  "slice_buf buf start end =
     (let s = clamp_index start (length buf); e = clamp_index end (length buf)
      in take (e - s) (drop s buf))"

definition slice_buf_from :: "'a list \<Rightarrow> int \<Rightarrow> 'a list" where
  "slice_buf_from buf start = drop (clamp_index start (length buf)) buf"

datatype exn = TypeError | RangeError | Error string

text \<open>A string between single quotes, as the messages of the thrown errors have it.\<close>

definition quoted :: "string \<Rightarrow> string" where
  "quoted s = [CHR 0x27] @ s @ [CHR 0x27]"

text \<open>\<open>buf.readUInt16BE(0)\<close>: a \<open>RangeError\<close> when fewer than two bytes are there.\<close>

definition readUInt16BE :: "buffer \<Rightarrow> exn + nat" where
  "readUInt16BE buf =
     (case buf of
        hi # lo # _ \<Rightarrow> Inr (unat hi * 256 + unat lo)
      | _ \<Rightarrow> Inl RangeError)"

text \<open>
  Modelled from the spec: \<open>numberToBuffer\<close> lives in \<open>src/utils\<close>, which is not among
  the sources. The wire format gives \<open>ALEN(1)\<close>, one byte holding the length of the
  host; the model writes \<open>num\<close> big-endian into \<open>len\<close> bytes.
\<close>

definition numberToBuffer :: "nat \<Rightarrow> nat \<Rightarrow> buffer" where
  "numberToBuffer num len = map (\<lambda>i. of_nat (num div 256 ^ (len - 1 - i))) [0..<len]"

section \<open>The primitives of the environment\<close>

text \<open>
  Node's \<open>crypto\<close> module, the \<open>ip\<close> package and the helpers of \<open>src/utils\<close>
  (\<open>hmac\<close>, \<open>EVP_BytesToKey\<close>) are not part of the sources: the preset is modelled
  over any implementation of them. All nine supported methods are stream modes (CTR and
  CFB): \<open>update\<close> consumes its input byte by byte and returns as many bytes as it was
  given, so a cipher object is a state and a step on one byte.
\<close>

record ('c, 'd) env =
  createCipheriv :: "string \<Rightarrow> buffer \<Rightarrow> buffer \<Rightarrow> 'c"
  createDecipheriv :: "string \<Rightarrow> buffer \<Rightarrow> buffer \<Rightarrow> 'd"
  cipher_byte :: "'c \<Rightarrow> byte \<Rightarrow> byte \<times> 'c"
  decipher_byte :: "'d \<Rightarrow> byte \<Rightarrow> byte \<times> 'd"
  hmac :: "string \<Rightarrow> buffer \<Rightarrow> buffer \<Rightarrow> buffer"
  EVP_BytesToKey :: "string \<Rightarrow> nat \<Rightarrow> nat \<Rightarrow> buffer"
  ip_toString :: "buffer \<Rightarrow> string"
  Buffer_from :: "string \<Rightarrow> buffer"
  Buffer_toString :: "buffer \<Rightarrow> string"

fun update :: "('s \<Rightarrow> byte \<Rightarrow> byte \<times> 's) \<Rightarrow> 's \<Rightarrow> buffer \<Rightarrow> buffer \<times> 's" where
  "update f s [] = ([], s)"
| "update f s (b # bs) =
     (case f s b of (y, s') \<Rightarrow>
        (case update f s' bs of (ys, s'') \<Rightarrow> (y # ys, s'')))"

section \<open>The preset exp-base-auth-stream\<close>

definition ATYP_V4 :: nat where "ATYP_V4 = 1"
definition ATYP_V6 :: nat where "ATYP_V6 = 4"
definition IV_LEN :: nat where "IV_LEN = 16"
definition HMAC_LEN :: nat where "HMAC_LEN = 16"

definition ciphers :: "string list" where
  "ciphers =
     [''aes-128-ctr'', ''aes-192-ctr'', ''aes-256-ctr'',
      ''aes-128-cfb'', ''aes-192-cfb'', ''aes-256-cfb'',
      ''camellia-128-cfb'', ''camellia-192-cfb'', ''camellia-256-cfb'']"

text \<open>The fields of the class; \<open>None\<close> is JavaScript's \<open>null\<close>.\<close>

record ('c, 'd) preset =
  isHandshakeDone :: bool
  host :: "buffer option"
  port :: "buffer option"
  cipherName :: string
  key :: "buffer option"
  cipher :: "'c option"
  decipher :: "'d option"

text \<open>\<open>str.split('-')\<close> and the number a string of digits converts to.\<close>

fun split_on :: "char \<Rightarrow> string \<Rightarrow> string list" where
  "split_on sep [] = [[]]"
| "split_on sep (c # cs) =
     (if c = sep then [] # split_on sep cs
      else (case split_on sep cs of
              w # ws \<Rightarrow> (c # w) # ws
            | [] \<Rightarrow> [[c]]))"

definition digits_value :: "string \<Rightarrow> nat" where
  "digits_value s = foldl (\<lambda>n c. 10 * n + (of_char c - 48)) 0 s"

text \<open>
  \<open>this._cipherName.split('-')[1] / 8\<close>. The constructor has checked the name against
  \<open>ciphers\<close> before, so the second component is 128, 192 or 256.
\<close>

definition keyLen :: "string \<Rightarrow> nat" where
  "keyLen name =
     (case split_on CHR ''-'' name of
        _ # bits # _ \<Rightarrow> digits_value bits div 8
      | _ \<Rightarrow> 0)"

text \<open>
  The constructor. \<open>is_client\<close> is the global \<open>__IS_CLIENT__\<close>, \<open>KEY\<close> the global
  \<open>__KEY__\<close> (\<open>None\<close> when it is not set; the empty string is falsy as well), and
  \<open>method = None\<close> stands for a \<open>method\<close> that is not a string.
\<close>

definition new_preset ::
  "('c, 'd) env \<Rightarrow> bool \<Rightarrow> string option \<Rightarrow> nat \<Rightarrow> buffer \<Rightarrow> buffer \<Rightarrow> string option
     \<Rightarrow> exn + ('c, 'd) preset" where
  "new_preset E is_client KEY type h p method =
     (case method of
        None \<Rightarrow> Inl (Error (quoted ''method'' @ '' must be set''))
      | Some m \<Rightarrow>
          if m = [] then Inl (Error (quoted ''method'' @ '' must be set''))
          else if m \<notin> set ciphers
          then Inl (Error (''method '' @ quoted m @ '' is not supported.''))
          else
            Inr \<lparr> isHandshakeDone = False,
                  host = (if is_client
                          then (if type = ATYP_V4 \<or> type = ATYP_V6
                                then Some (Buffer_from E (ip_toString E h))
                                else Some h)
                          else None),
                  port = (if is_client then Some p else None),
                  cipherName = m,
                  key = (case KEY of
                           None \<Rightarrow> None
                         | Some pw \<Rightarrow>
                             if pw = [] then None
                             else Some (EVP_BytesToKey E pw (keyLen m) IV_LEN)),
                  cipher = None,
                  decipher = None \<rparr>)"

text \<open>
  \<open>encrypt\<close> and \<open>decrypt\<close> update the cipher objects in place; on a \<open>null\<close>
  object the call throws a \<open>TypeError\<close>. Every operation returns its result together
  with the preset's state after it, also when it throws.
\<close>

definition encrypt ::
  "('c, 'd) env \<Rightarrow> ('c, 'd) preset \<Rightarrow> buffer \<Rightarrow> (exn + buffer) \<times> ('c, 'd) preset" where
  "encrypt E s buf =
     (case cipher s of
        None \<Rightarrow> (Inl TypeError, s)
      | Some c \<Rightarrow>
          (case update (cipher_byte E) c buf of
             (out, c') \<Rightarrow> (Inr out, s\<lparr>cipher := Some c'\<rparr>)))"

definition decrypt ::
  "('c, 'd) env \<Rightarrow> ('c, 'd) preset \<Rightarrow> buffer \<Rightarrow> (exn + buffer) \<times> ('c, 'd) preset" where
  "decrypt E s buf =
     (case decipher s of
        None \<Rightarrow> (Inl TypeError, s)
      | Some d \<Rightarrow>
          (case update (decipher_byte E) d buf of
             (out, d') \<Rightarrow> (Inr out, s\<lparr>decipher := Some d'\<rparr>)))"

text \<open>
  \<open>clientOut\<close>. The argument \<open>iv\<close> is what \<open>crypto.randomBytes(IV_LEN)\<close> returns
  when the call makes it. Creating a cipher with a \<open>null\<close> key, reading the length of
  a \<open>null\<close> host and concatenating a \<open>null\<close> port throw a \<open>TypeError\<close>.
\<close>

definition clientOut ::
  "('c, 'd) env \<Rightarrow> buffer \<Rightarrow> ('c, 'd) preset \<Rightarrow> buffer \<Rightarrow> (exn + buffer) \<times> ('c, 'd) preset" where
  "clientOut E iv s buf =
     (if \<not> isHandshakeDone s then
        (let s1 = s\<lparr>isHandshakeDone := True\<rparr> in
         case key s1 of
           None \<Rightarrow> (Inl TypeError, s1)
         | Some k \<Rightarrow>
             (let s2 = s1\<lparr>cipher := Some (createCipheriv E (cipherName s1) k iv)\<rparr>;
                  s3 = s2\<lparr>decipher := Some (createDecipheriv E (cipherName s2) k iv)\<rparr>
              in case host s3 of
                   None \<Rightarrow> (Inl TypeError, s3)
                 | Some h \<Rightarrow>
                     (case port s3 of
                        None \<Rightarrow> (Inl TypeError, s3)
                      | Some p \<Rightarrow>
                          (case encrypt E s3 (numberToBuffer (length h) 1 @ h @ p @ buf) of
                             (Inl e, s4) \<Rightarrow> (Inl e, s4)
                           | (Inr encBuf, s4) \<Rightarrow>
                               (let hmacEncAddr =
                                      slice_buf (hmac E ''sha1'' k
                                               (slice_buf encBuf 0 (- int (length buf))))
                                        0 (int HMAC_LEN)
                                in (Inr (iv @ hmacEncAddr @ encBuf), s4))))))
      else encrypt E s buf)"

text \<open>
  What a call of \<open>serverIn\<close> does besides changing the state: it calls \<open>fail\<close>, it
  broadcasts \<open>SOCKET_CONNECT_TO_DST\<close> with the target address and the \<open>onConnected\<close>
  callback (which holds \<open>data\<close>), or it returns the decrypted chunk.
\<close>

datatype fail_reason =
    UnexpectedLength1 nat buffer
  | UnexpectedLength2 nat buffer
  | UnexpectedHmac buffer buffer

datatype server_event =
    Failed fail_reason
  | ConnectToDst string nat buffer
  | Output buffer

text \<open>
  \<open>serverIn\<close>. \<open>tailBuffer[0]\<close> on an empty buffer is \<open>undefined\<close>: then
  \<open>35 + alen\<close> is \<open>NaN\<close>, the length check passes, \<open>buffer.slice(32, NaN)\<close> is
  empty, and after a matching tag \<open>readUInt16BE\<close> on the empty slice throws.
\<close>

definition serverIn ::
  "('c, 'd) env \<Rightarrow> ('c, 'd) preset \<Rightarrow> buffer \<Rightarrow> (exn + server_event) \<times> ('c, 'd) preset" where
  "serverIn E s buf =
     (if \<not> isHandshakeDone s then
        (if length buf < 37 then
           (Inr (Failed (UnexpectedLength1 (length buf) buf)), s)
         else
           (case key s of
              None \<Rightarrow> (Inl TypeError, s)
            | Some k \<Rightarrow>
                (let iv = slice_buf buf 0 (int IV_LEN);
                     s1 = s\<lparr>cipher := Some (createCipheriv E (cipherName s) k iv)\<rparr>;
                     s2 = s1\<lparr>decipher := Some (createDecipheriv E (cipherName s1) k iv)\<rparr>
                 in case decrypt E s2 (slice_buf_from buf 32) of
                      (Inl e, s3) \<Rightarrow> (Inl e, s3)
                    | (Inr tailBuffer, s3) \<Rightarrow>
                        (let hmacTag = slice_buf buf 16 32 in
                         case tailBuffer of
                           [] \<Rightarrow>
                             (let expHmac = slice_buf (hmac E ''sha1'' k []) 0 (int HMAC_LEN) in
                              if expHmac \<noteq> hmacTag
                              then (Inr (Failed (UnexpectedHmac hmacTag expHmac)), s3)
                              else (Inl RangeError, s3))
                         | a0 # _ \<Rightarrow>
                             (let alen = unat a0 in
                              if length buf \<le> 35 + alen then
                                (Inr (Failed (UnexpectedLength2 (length buf) buf)), s3)
                              else
                                (let expHmac =
                                       slice_buf (hmac E ''sha1'' k (slice_buf buf 32 (35 + int alen)))
                                         0 (int HMAC_LEN)
                                 in if expHmac \<noteq> hmacTag then
                                      (Inr (Failed (UnexpectedHmac hmacTag expHmac)), s3)
                                    else
                                      (let addr = Buffer_toString E
                                                    (slice_buf tailBuffer 1 (int alen + 1))
                                       in case readUInt16BE
                                                 (slice_buf tailBuffer (int alen + 1) (int alen + 3)) of
                                            Inl e \<Rightarrow> (Inl e, s3)
                                          | Inr prt \<Rightarrow>
                                              (let data = slice_buf_from tailBuffer (int alen + 3)
                                               in (Inr (ConnectToDst addr prt data), s3)))))))))
      else
        (case decrypt E s buf of
           (Inl e, s') \<Rightarrow> (Inl e, s')
         | (Inr out, s') \<Rightarrow> (Inr (Output out), s')))"

text \<open>
  The \<open>onConnected\<close> callback of a broadcast: it passes \<open>data\<close> to \<open>next\<close> and sets
  the flag.
\<close>

definition onConnected :: "buffer \<Rightarrow> ('c, 'd) preset \<Rightarrow> buffer \<times> ('c, 'd) preset" where
  "onConnected data s = (data, s\<lparr>isHandshakeDone := True\<rparr>)"

definition serverOut ::
  "('c, 'd) env \<Rightarrow> ('c, 'd) preset \<Rightarrow> buffer \<Rightarrow> (exn + buffer) \<times> ('c, 'd) preset" where
  "serverOut E s buf = encrypt E s buf"

definition clientIn ::
  "('c, 'd) env \<Rightarrow> ('c, 'd) preset \<Rightarrow> buffer \<Rightarrow> (exn + buffer) \<times> ('c, 'd) preset" where
  "clientIn E s buf = decrypt E s buf"

section \<open>Observations on the handshake\<close>

text \<open>
  The decipher of a preset inverts its cipher when, started together, decrypting what the
  one encrypted gives the plaintext back. This is the contract of a cipher and a decipher
  that Node creates from the same method, key and IV.
\<close>

definition stream_pair :: "('c, 'd) env \<Rightarrow> 'c \<Rightarrow> 'd \<Rightarrow> bool" where
  "stream_pair E c d \<longleftrightarrow>
     (\<forall>xs. fst (update (decipher_byte E) d (fst (update (cipher_byte E) c xs))) = xs)"

text \<open>
  What \<open>serverIn\<close> computes from a first chunk: the decrypted tail, the byte it reads
  as \<open>ALEN\<close>, and the state it leaves once both cipher objects have been created.
\<close>

definition tail_of :: "('c, 'd) env \<Rightarrow> string \<Rightarrow> buffer \<Rightarrow> buffer \<Rightarrow> buffer" where
  "tail_of E m k buf =
     fst (update (decipher_byte E) (createDecipheriv E m k (take 16 buf)) (drop 32 buf))"

definition alen_of :: "('c, 'd) env \<Rightarrow> string \<Rightarrow> buffer \<Rightarrow> buffer \<Rightarrow> nat" where
  "alen_of E m k buf = (case tail_of E m k buf of [] \<Rightarrow> 0 | a0 # _ \<Rightarrow> unat a0)"

definition after_handshake ::
  "('c, 'd) env \<Rightarrow> ('c, 'd) preset \<Rightarrow> buffer \<Rightarrow> buffer \<Rightarrow> ('c, 'd) preset" where
  "after_handshake E s k buf =
     s\<lparr>cipher := Some (createCipheriv E (cipherName s) k (take 16 buf)),
       decipher := Some (snd (update (decipher_byte E)
                                (createDecipheriv E (cipherName s) k (take 16 buf))
                                (drop 32 buf)))\<rparr>"

text \<open>
  The bytes of a first chunk that \<open>serverIn\<close> authenticates, \<open>buffer.slice(32, 35 + alen)\<close>,
  the tag it expects for them and the tag the chunk carries.
\<close>

definition mac_region :: "('c, 'd) env \<Rightarrow> string \<Rightarrow> buffer \<Rightarrow> buffer \<Rightarrow> buffer" where
  "mac_region E m k buf = slice_buf buf 32 (35 + int (alen_of E m k buf))"

definition expected_tag :: "('c, 'd) env \<Rightarrow> string \<Rightarrow> buffer \<Rightarrow> buffer \<Rightarrow> buffer" where
  "expected_tag E m k buf = slice_buf (hmac E ''sha1'' k (mac_region E m k buf)) 0 (int HMAC_LEN)"

definition carried_tag :: "buffer \<Rightarrow> buffer" where
  "carried_tag buf = slice_buf buf 16 32"

text \<open>
  The construction of the handshake frame in the words of the specification (steps 3 to
  6), to be compared with what \<open>clientOut\<close> returns.
\<close>

definition StreamEncrypt :: "('c, 'd) env \<Rightarrow> string \<Rightarrow> buffer \<Rightarrow> buffer \<Rightarrow> buffer \<Rightarrow> buffer" where
  "StreamEncrypt E m k iv plaintext =
     fst (update (cipher_byte E) (createCipheriv E m k iv) plaintext)"

definition address_header :: "buffer \<Rightarrow> buffer \<Rightarrow> buffer" where
  "address_header h p = numberToBuffer (length h) 1 @ h @ p"

definition spec_frame ::
  "('c, 'd) env \<Rightarrow> string \<Rightarrow> buffer \<Rightarrow> buffer \<Rightarrow> buffer \<Rightarrow> buffer \<Rightarrow> buffer \<Rightarrow> buffer" where
  "spec_frame E m k iv h p data =
     (let plaintext = address_header h p @ data;
          ciphertext = StreamEncrypt E m k iv plaintext;
          enc_addr = take (length ciphertext - length data) ciphertext;
          tag = take 16 (hmac E ''sha1'' k enc_addr)
      in iv @ tag @ ciphertext)"

section \<open>Driving a client and a server\<close>

text \<open>
  The server side of a relay: each chunk read from the client goes to \<open>serverIn\<close>;
  after a broadcast the relay connects to the destination and runs the callback before
  it reads the next chunk.
\<close>

fun feed :: "('c, 'd) env \<Rightarrow> ('c, 'd) preset \<Rightarrow> buffer list \<Rightarrow> (exn + server_event) list" where
  "feed E s [] = []"
| "feed E s (b # bs) =
     (case serverIn E s b of
        (Inr (ConnectToDst a prt d), s') \<Rightarrow>
          Inr (ConnectToDst a prt d) # feed E (snd (onConnected d s')) bs
      | (r, s') \<Rightarrow> r # feed E s' bs)"

text \<open>
  Chunks travelling between a client preset and a server preset once the handshake is
  done: forward through \<open>clientOut\<close> and \<open>serverIn\<close>, backward through
  \<open>serverOut\<close> and \<open>clientIn\<close>. \<open>relay\<close> lists what arrives on the other side,
  \<open>None\<close> where a call throws or does not return a chunk.
\<close>

datatype message = Forward buffer | Backward buffer

fun payload :: "message \<Rightarrow> buffer" where
  "payload (Forward x) = x"
| "payload (Backward x) = x"

fun relay ::
  "('c, 'd) env \<Rightarrow> buffer \<Rightarrow> ('c, 'd) preset \<Rightarrow> ('c, 'd) preset \<Rightarrow> message list
     \<Rightarrow> buffer option list" where
  "relay E iv c s [] = []"
| "relay E iv c s (Forward x # ms) =
     (case clientOut E iv c x of
        (Inl e, c') \<Rightarrow> None # relay E iv c' s ms
      | (Inr y, c') \<Rightarrow>
          (case serverIn E s y of
             (Inr (Output z), s') \<Rightarrow> Some z # relay E iv c' s' ms
           | (r, s') \<Rightarrow> None # relay E iv c' s' ms))"
| "relay E iv c s (Backward x # ms) =
     (case serverOut E s x of
        (Inl e, s') \<Rightarrow> None # relay E iv c s' ms
      | (Inr y, s') \<Rightarrow>
          (case clientIn E c y of
             (Inl e, c') \<Rightarrow> None # relay E iv c' s' ms
           | (Inr z, c') \<Rightarrow> Some z # relay E iv c' s' ms))"

text \<open>
  A client and a server after the handshake: both flags are set, the decipher of the
  server inverts the cipher of the client, and the decipher of the client inverts the
  cipher of the server.
\<close>

definition linked :: "('c, 'd) env \<Rightarrow> ('c, 'd) preset \<Rightarrow> ('c, 'd) preset \<Rightarrow> bool" where
  "linked E c s \<longleftrightarrow>
     isHandshakeDone c \<and> isHandshakeDone s \<and>
     (\<exists>cf df cb db.
        cipher c = Some cf \<and> decipher s = Some df \<and> stream_pair E cf df \<and>
        cipher s = Some cb \<and> decipher c = Some db \<and> stream_pair E cb db)"

text \<open>
  Any sequence of operations on one preset instance, the callbacks of its broadcasts
  among them, and the values the flag takes along it.
\<close>

datatype operation =
    ClientOut buffer buffer
  | ServerIn buffer
  | ServerOut buffer
  | ClientIn buffer
  | OnConnected buffer

fun step :: "('c, 'd) env \<Rightarrow> ('c, 'd) preset \<Rightarrow> operation \<Rightarrow> ('c, 'd) preset" where
  "step E s (ClientOut iv b) = snd (clientOut E iv s b)"
| "step E s (ServerIn b) = snd (serverIn E s b)"
| "step E s (ServerOut b) = snd (serverOut E s b)"
| "step E s (ClientIn b) = snd (clientIn E s b)"
| "step E s (OnConnected d) = snd (onConnected d s)"

fun flag_trace :: "('c, 'd) env \<Rightarrow> ('c, 'd) preset \<Rightarrow> operation list \<Rightarrow> bool list" where
  "flag_trace E s [] = [isHandshakeDone s]"
| "flag_trace E s (x # xs) = isHandshakeDone s # flag_trace E (step E s x) xs"

definition rises :: "bool list \<Rightarrow> nat" where
  "rises tr = length (filter (\<lambda>(a, b). \<not> a \<and> b) (zip tr (tl tr)))"

definition falls :: "bool list \<Rightarrow> nat" where
  "falls tr = length (filter (\<lambda>(a, b). a \<and> \<not> b) (zip tr (tl tr)))"

section \<open>bootstrap.js: obtainConfig\<close>

text \<open>
  JavaScript values as far as a configuration holds them, and an object as the map of
  its properties. Reading a property that is not there gives \<open>undefined\<close>.
\<close>

datatype jsval =
    JUndefined
  | JNull
  | JBool bool
  | JNum int
  | JNaN
  | JStr string
  | JArr "jsval list"
  | JObj "(string \<times> jsval) list"

type_synonym object = "string \<rightharpoonup> jsval"

definition get_prop :: "object \<Rightarrow> string \<Rightarrow> jsval" where
  "get_prop obj name = (case obj name of None \<Rightarrow> JUndefined | Some v \<Rightarrow> v)"

fun truthy :: "jsval \<Rightarrow> bool" where
  "truthy JUndefined = False"
| "truthy JNull = False"
| "truthy (JBool b) = b"
| "truthy (JNum n) = (n \<noteq> 0)"
| "truthy JNaN = False"
| "truthy (JStr s) = (s \<noteq> [])"
| "truthy (JArr xs) = True"
| "truthy (JObj ps) = True"

definition BOOTSTRAP_TYPE_SERVER :: nat where
  "BOOTSTRAP_TYPE_SERVER = 1"

text \<open>\<open>Object.assign(config, json)\<close>: every property of \<open>json\<close>, in order.\<close>

definition assign :: "object \<Rightarrow> (string \<times> jsval) list \<Rightarrow> object" where
  "assign config json = foldl (\<lambda>cfg (name, v). cfg(name \<mapsto> v)) config json"

text \<open>
  The first part of \<open>obtainConfig\<close>: the object assembled from the command line, with
  the properties of the configuration file written over it. \<open>parseInt\<close> is the built-in
  \<open>parseInt(x, 10)\<close>; \<open>load\<close> reads the file at the resolved path (\<open>require\<close> for a
  \<open>.js\<close> file, \<open>readFileSync\<close> and \<open>JSON.parse\<close> otherwise) and gives the
  properties of what it holds, or \<open>None\<close> when that throws. \<open>path.resolve\<close> throws a
  \<open>TypeError\<close> on a path that is not a string, before the \<open>try\<close> block.
\<close>

definition assemble ::
  "(jsval \<Rightarrow> jsval) \<Rightarrow> (string \<Rightarrow> (string \<times> jsval) list option) \<Rightarrow> object \<Rightarrow> exn + object" where
  "assemble parseInt load options =
     (let host = get_prop options ''host'';
          servers = get_prop options ''servers'';
          key = get_prop options ''key'';
          presets = get_prop options ''presets'';
          redirect = get_prop options ''redirect'';
          quiet = get_prop options ''quiet'';
          port = parseInt (get_prop options ''port'');
          log_level = (if truthy quiet then JStr ''error'' else get_prop options ''logLevel'');
          timeout = parseInt (get_prop options ''timeout'');
          watch = JBool (truthy (get_prop options ''watch''));
          profile = JBool (truthy (get_prop options ''profile''));
          config = [''host'' \<mapsto> host, ''port'' \<mapsto> port, ''servers'' \<mapsto> servers,
                    ''key'' \<mapsto> key, ''presets'' \<mapsto> presets, ''redirect'' \<mapsto> redirect,
                    ''log_level'' \<mapsto> log_level, ''timeout'' \<mapsto> timeout,
                    ''watch'' \<mapsto> watch, ''profile'' \<mapsto> profile]
      in if get_prop options ''config'' \<noteq> JStr [] then
           (case get_prop options ''config'' of
              JStr file \<Rightarrow>
                (case load file of
                   None \<Rightarrow> Inl (Error (''fail to parse your '' @ quoted file))
                 | Some json \<Rightarrow> Inr (assign config json))
            | _ \<Rightarrow> Inl TypeError)
         else Inr config)"

text \<open>
  The callback of the filter, \<open>server[0] !== '-'\<close>: the first character of a string,
  the first element of an array, the property \<open>0\<close> of an object; \<open>undefined\<close> on a
  number or a boolean, and a \<open>TypeError\<close> on \<open>null\<close> and \<open>undefined\<close>.
\<close>

fun enabled :: "jsval \<Rightarrow> exn + bool" where
  "enabled (JStr s) = Inr (case s of [] \<Rightarrow> True | c # _ \<Rightarrow> c \<noteq> CHR ''-'')"
| "enabled (JArr xs) = Inr (case xs of [] \<Rightarrow> True | x # _ \<Rightarrow> x \<noteq> JStr ''-'')"
| "enabled (JObj ps) = Inr (case map_of ps ''0'' of None \<Rightarrow> True | Some x \<Rightarrow> x \<noteq> JStr ''-'')"
| "enabled JUndefined = Inl TypeError"
| "enabled JNull = Inl TypeError"
| "enabled (JBool b) = Inr True"
| "enabled (JNum n) = Inr True"
| "enabled JNaN = Inr True"

fun filter_enabled :: "jsval list \<Rightarrow> exn + jsval list" where
  "filter_enabled [] = Inr []"
| "filter_enabled (x # xs) =
     (case enabled x of
        Inl e \<Rightarrow> Inl e
      | Inr keep \<Rightarrow>
          (case filter_enabled xs of
             Inl e \<Rightarrow> Inl e
           | Inr ys \<Rightarrow> Inr (if keep then x # ys else ys)))"

text \<open>
  The second part, the post-processing by role. Only an array has a \<open>filter\<close> method:
  on any other value of \<open>servers\<close> the call throws a \<open>TypeError\<close>.
\<close>

definition post_process :: "nat \<Rightarrow> object \<Rightarrow> exn + object" where
  "post_process type config =
     (if type = BOOTSTRAP_TYPE_SERVER then Inr (config(''servers'' := None))
      else
        (case get_prop config ''servers'' of
           JArr xs \<Rightarrow>
             (case filter_enabled xs of
                Inl e \<Rightarrow> Inl e
              | Inr ys \<Rightarrow> Inr (config(''servers'' \<mapsto> JArr ys)))
         | _ \<Rightarrow> Inl TypeError))"

definition obtainConfig ::
  "(jsval \<Rightarrow> jsval) \<Rightarrow> (string \<Rightarrow> (string \<times> jsval) list option) \<Rightarrow> nat \<Rightarrow> object
     \<Rightarrow> exn + object" where
  "obtainConfig parseInt load type options =
     (case assemble parseInt load options of
        Inl e \<Rightarrow> Inl e
      | Inr config \<Rightarrow> post_process type config)"

text \<open>
  The object \<open>obtainConfig\<close> assembles from the command line alone, before the
  configuration file is written over it.
\<close>

definition cli_config :: "(jsval \<Rightarrow> jsval) \<Rightarrow> object \<Rightarrow> object" where
  "cli_config parseInt options =
     [''host'' \<mapsto> get_prop options ''host'',
      ''port'' \<mapsto> parseInt (get_prop options ''port''),
      ''servers'' \<mapsto> get_prop options ''servers'',
      ''key'' \<mapsto> get_prop options ''key'',
      ''presets'' \<mapsto> get_prop options ''presets'',
      ''redirect'' \<mapsto> get_prop options ''redirect'',
      ''log_level'' \<mapsto> (if truthy (get_prop options ''quiet'') then JStr ''error''
                          else get_prop options ''logLevel''),
      ''timeout'' \<mapsto> parseInt (get_prop options ''timeout''),
      ''watch'' \<mapsto> JBool (truthy (get_prop options ''watch'')),
      ''profile'' \<mapsto> JBool (truthy (get_prop options ''profile''))]"

section \<open>A concrete environment\<close>

text \<open>
  A small instance of the primitives, on which the model is evaluated at concrete inputs:
  a cipher that XORs each byte with a running counter seeded from key and IV, and a
  20-byte keyed checksum in the place of HMAC-SHA1.
\<close>

definition sum_bytes :: "buffer \<Rightarrow> byte" where
  "sum_bytes bs = foldr (+) bs 0"

definition xor_step :: "byte \<Rightarrow> byte \<Rightarrow> byte \<times> byte" where
  "xor_step st b = (xor b st, st + 1)"

definition checksum20 :: "string \<Rightarrow> buffer \<Rightarrow> buffer \<Rightarrow> buffer" where
  "checksum20 alg k msg =
     map (\<lambda>i. sum_bytes k + 3 * sum_bytes msg + of_nat (length msg) + of_nat i) [0..<20]"

definition xor_env :: "(byte, byte) env" where
  "xor_env =
     \<lparr> createCipheriv = (\<lambda>name k iv. sum_bytes k + sum_bytes iv),
       createDecipheriv = (\<lambda>name k iv. sum_bytes k + sum_bytes iv),
       cipher_byte = xor_step,
       decipher_byte = xor_step,
       hmac = checksum20,
       EVP_BytesToKey = (\<lambda>pw klen ivlen. map (\<lambda>i. of_nat (length pw) + of_nat i) [0..<klen]),
       ip_toString = map (\<lambda>b. char_of (unat b)),
       Buffer_from = map (\<lambda>c. of_nat (of_char c)),
       Buffer_toString = map (\<lambda>b. char_of (unat b)) \<rparr>"

definition sample_key :: buffer where
  "sample_key = [1, 2, 3, 4, 5, 6, 7, 8, 9, 10, 11, 12, 13, 14, 15, 16]"

definition sample_iv :: buffer where
  "sample_iv = [200, 201, 202, 203, 204, 205, 206, 207, 208, 209, 210, 211, 212, 213, 214, 215]"

definition sample_server :: "(byte, byte) preset" where
  "sample_server =
     \<lparr> isHandshakeDone = False, host = None, port = None, cipherName = ''aes-128-ctr'',
       key = Some sample_key, cipher = None, decipher = None \<rparr>"

definition sample_client :: "buffer \<Rightarrow> (byte, byte) preset" where
  "sample_client h =
     \<lparr> isHandshakeDone = False, host = Some h, port = Some [0, 80],
       cipherName = ''aes-128-ctr'', key = Some sample_key, cipher = None, decipher = None \<rparr>"

text \<open>
  The frame \<open>clientOut\<close> builds in this environment for the host \<open>a.io\<close>, port 80 and
  the first chunk \<open>hi\<close>, and the same frame with bit 0 of byte 32 flipped.
\<close>

definition sample_host :: buffer where
  "sample_host = [97, 46, 105, 111]"

definition sample_frame :: buffer where
  "sample_frame =
     [200, 201, 202, 203, 204, 205, 206, 207, 208, 209, 210, 211, 212, 213, 214, 215,
      79, 80, 81, 82, 83, 84, 85, 86, 87, 88, 89, 90, 91, 92, 93, 94,
      132, 224, 172, 234, 235, 133, 214, 239, 225]"

definition flipped_frame :: buffer where
  "flipped_frame = sample_frame[32 := xor (sample_frame ! 32) 1]"

text \<open>
  The frame for an empty host, port 80 and the first chunk \<open>hi\<close>: its \<open>ALEN\<close> is 0
  and its tag is the one \<open>clientOut\<close> computes.
\<close>

definition alen0_frame :: buffer where
  "alen0_frame =
     [200, 201, 202, 203, 204, 205, 206, 207, 208, 209, 210, 211, 212, 213, 214, 215,
      4, 5, 6, 7, 8, 9, 10, 11, 12, 13, 14, 15, 16, 17, 18, 19,
      128, 129, 210, 235, 237]"

text \<open>The frame for the host \<open>a.io\<close>, port 80 and an empty first chunk.\<close>

definition empty_data_frame :: buffer where
  "empty_data_frame =
     [200, 201, 202, 203, 204, 205, 206, 207, 208, 209, 210, 211, 212, 213, 214, 215,
      136, 137, 138, 139, 140, 141, 142, 143, 144, 145, 146, 147, 148, 149, 150, 151,
      132, 224, 172, 234, 235, 133, 214]"

text \<open>The frame for the one-byte host \<open>a\<close>, port 80 and an empty first chunk.\<close>

definition one_byte_host_frame :: buffer where
  "one_byte_host_frame =
     [200, 201, 202, 203, 204, 205, 206, 207, 208, 209, 210, 211, 212, 213, 214, 215,
      136, 137, 138, 139, 140, 141, 142, 143, 144, 145, 146, 147, 148, 149, 150, 151,
      129, 224, 130, 211]"

text \<open>
  Options that name a configuration file holding three servers, the second one disabled,
  and options that give the servers on the command line.
\<close>

definition file_options :: object where
  "file_options = [''config'' \<mapsto> JStr ''c.json'']"

definition file_load :: "string \<Rightarrow> (string \<times> jsval) list option" where
  "file_load path =
     (if path = ''c.json''
      then Some [(''servers'', JArr (map JStr [''a:1'', ''-b:2'', ''c:3'']))]
      else None)"

definition cli_options :: object where
  "cli_options = [''config'' \<mapsto> JStr [], ''servers'' \<mapsto> JArr (map JStr [''-x:1'', ''y:2''])]"

section \<open>Buffers and cipher updates\<close>

lemma slice_buf_nat: "slice_buf buf (int a) (int b) = take (b - a) (drop a buf)"
proof (cases "a < length buf")
  case True
  have "take (min b (length buf) - a) (drop a buf) = take (b - a) (drop a buf)"
    by (cases "b \<le> length buf") (simp_all add: min_def)
  with True show ?thesis
    by (simp add: slice_buf_def clamp_index_def Let_def min_def)
next
  case False
  then show ?thesis
    by (simp add: slice_buf_def clamp_index_def Let_def min_def)
qed

lemma slice_buf_0_nat: "slice_buf buf 0 (int b) = take b buf"
  using slice_buf_nat [of buf 0 b] by simp

lemma slice_buf_from_nat: "slice_buf_from buf (int a) = drop a buf"
  by (simp add: slice_buf_from_def clamp_index_def min_def)

lemma slice_buf_0_neg:
  "slice_buf buf 0 (- int n) = (if n = 0 then [] else take (length buf - n) buf)"
proof (cases "n = 0")
  case True
  then show ?thesis by (simp add: slice_buf_def clamp_index_def)
next
  case False
  have "nat (max 0 (int (length buf) - int n)) = length buf - n"
    by arith
  with False show ?thesis
    by (simp add: slice_buf_def clamp_index_def Let_def)
qed

lemma numberToBuffer_1: "numberToBuffer n 1 = [of_nat n]"
  by (simp add: numberToBuffer_def)

lemma length_update: "length (fst (update f s xs)) = length xs"
proof (induction xs arbitrary: s)
  case Nil
  show ?case by simp
next
  case (Cons b bs)
  obtain y s' where step: "f s b = (y, s')" by (cases "f s b")
  obtain ys s'' where rest: "update f s' bs = (ys, s'')" by (cases "update f s' bs")
  from Cons [of s'] rest have "length ys = length bs" by simp
  with step rest show ?case by simp
qed

lemma update_append:
  "update f s (xs @ ys) =
     (case update f s xs of (us, s') \<Rightarrow>
        (case update f s' ys of (vs, s'') \<Rightarrow> (us @ vs, s'')))"
  by (induction xs arbitrary: s) (auto split: prod.splits)

lemma fst_update_append:
  "fst (update f s (xs @ ys)) = fst (update f s xs) @ fst (update f (snd (update f s xs)) ys)"
  by (simp add: update_append split: prod.splits)

lemma snd_update_append:
  "snd (update f s (xs @ ys)) = snd (update f (snd (update f s xs)) ys)"
  by (simp add: update_append split: prod.splits)

lemma slice_buf_nonneg:
  assumes "0 \<le> a" and "0 \<le> b"
  shows "slice_buf buf a b = take (nat b - nat a) (drop (nat a) buf)"
  using slice_buf_nat [of buf "nat a" "nat b"] assms by simp

lemma slice_buf_from_nonneg:
  assumes "0 \<le> a"
  shows "slice_buf_from buf a = drop (nat a) buf"
  using slice_buf_from_nat [of buf "nat a"] assms by simp

lemma slice_buf_mac: "slice_buf buf 32 (35 + int n) = take (3 + n) (drop 32 buf)"
  using slice_buf_nat [of buf 32 "35 + n"] by simp

lemma slice_buf_addr: "slice_buf t 1 (int n + 1) = take n (drop 1 t)"
  using slice_buf_nat [of t 1 "n + 1"] by (simp add: add.commute)

lemma slice_buf_port: "slice_buf t (int n + 1) (int n + 3) = take 2 (drop (n + 1) t)"
  using slice_buf_nat [of t "n + 1" "n + 3"] by (simp add: add.commute)

lemma slice_buf_from_data: "slice_buf_from t (int n + 3) = drop (n + 3) t"
  using slice_buf_from_nat [of t "n + 3"] by simp

lemma slice_buf_consts:
  "slice_buf buf 0 16 = take 16 buf"
  "slice_buf buf 16 32 = take 16 (drop 16 buf)"
  "slice_buf_from buf 32 = drop 32 buf"
  using slice_buf_nat [of buf 0 16] slice_buf_nat [of buf 16 32] slice_buf_from_nat [of buf 32]
  by simp_all

lemma readUInt16BE_at:
  assumes "n + 2 \<le> length xs"
  shows "readUInt16BE (take 2 (drop n xs)) = Inr (unat (xs ! n) * 256 + unat (xs ! Suc n))"
proof -
  from assms have "drop n xs = xs ! n # xs ! Suc n # drop (Suc (Suc n)) xs"
    by (simp add: Cons_nth_drop_Suc)
  then show ?thesis
    by (simp add: readUInt16BE_def)
qed

lemma serverIn_handshake:
  assumes "\<not> isHandshakeDone s" and "key s = Some k" and "37 \<le> length buf"
  shows "serverIn E s buf =
     (let m = cipherName s; tail = tail_of E m k buf; alen = alen_of E m k buf;
          tag = take 16 (drop 16 buf);
          expected = take 16 (hmac E ''sha1'' k (take (3 + alen) (drop 32 buf)))
      in if length buf \<le> 35 + alen then
           (Inr (Failed (UnexpectedLength2 (length buf) buf)), after_handshake E s k buf)
         else if expected \<noteq> tag then
           (Inr (Failed (UnexpectedHmac tag expected)), after_handshake E s k buf)
         else
           (Inr (ConnectToDst (Buffer_toString E (take alen (drop 1 tail)))
                   (unat (tail ! (alen + 1)) * 256 + unat (tail ! (alen + 2)))
                   (drop (alen + 3) tail)),
            after_handshake E s k buf))"
proof -
  define m where "m = cipherName s"
  define d0 where "d0 = createDecipheriv E m k (take 16 buf)"
  obtain tail d' where dec: "update (decipher_byte E) d0 (drop 32 buf) = (tail, d')"
    by (cases "update (decipher_byte E) d0 (drop 32 buf)")
  have len_tail: "length tail = length buf - 32"
    using length_update [of "decipher_byte E" d0 "drop 32 buf"] dec by simp
  with assms(3) obtain a0 rest where tail: "tail = a0 # rest"
    by (cases tail) auto
  have tl: "tail_of E m k buf = tail"
    using dec by (simp add: tail_of_def d0_def)
  have al: "alen_of E m k buf = unat a0"
    using tl tail by (simp add: alen_of_def)
  have st: "after_handshake E s k buf =
      s\<lparr>cipher := Some (createCipheriv E m k (take 16 buf)), decipher := Some d'\<rparr>"
    using dec by (simp add: after_handshake_def m_def d0_def)
  show ?thesis
  proof (cases "length buf \<le> 35 + unat a0")
    case True
    with assms dec tail show ?thesis
      by (simp add: serverIn_def decrypt_def Let_def IV_LEN_def HMAC_LEN_def
          slice_buf_consts m_def [symmetric] d0_def [symmetric] tl al st)
  next
    case False
    then have "unat a0 + 1 + 2 \<le> length tail"
      using len_tail by simp
    then have rd: "readUInt16BE (take 2 (drop (unat a0 + 1) tail)) =
        Inr (unat (tail ! (unat a0 + 1)) * 256 + unat (tail ! (unat a0 + 2)))"
      using readUInt16BE_at [of "unat a0 + 1" tail] by simp
    with False assms dec tail show ?thesis
      by (simp add: serverIn_def decrypt_def Let_def IV_LEN_def HMAC_LEN_def
          slice_buf_consts slice_buf_mac slice_buf_addr slice_buf_port slice_buf_from_data
          m_def [symmetric] d0_def [symmetric] tl al st del: of_nat_unat)
  qed
qed

lemma serverIn_below_37:
  assumes "\<not> isHandshakeDone s" and "length buf < 37"
  shows "serverIn E s buf = (Inr (Failed (UnexpectedLength1 (length buf) buf)), s)"
  using assms by (simp add: serverIn_def)

section \<open>Short first chunks\<close>

text \<open>
  C6. While the handshake is not done, a chunk of fewer than 37 bytes makes \<open>serverIn\<close>
  call \<open>fail\<close> with the first length message. The call returns before any cipher is
  created: the state of the preset is the one before the call, and nothing is broadcast.
\<close>

theorem serverIn_short_handshake:
  assumes "\<not> isHandshakeDone s" and "length buf < 37"
  shows "serverIn E s buf = (Inr (Failed (UnexpectedLength1 (length buf) buf)), s)"
  using assms by (rule serverIn_below_37)

theorem serverIn_short_handshake_witness:
  "\<not> isHandshakeDone sample_server \<and> length (replicate 36 (0 :: byte)) < 37 \<and>
   serverIn xor_env sample_server (replicate 36 0) =
     (Inr (Failed (UnexpectedLength1 36 (replicate 36 0))), sample_server)"
  using serverIn_short_handshake [of sample_server "replicate 36 0" xor_env]
  by (simp add: sample_server_def)

section \<open>The first chunk on the server\<close>

lemma serverIn_first_chunk:
  assumes "\<not> isHandshakeDone s" and "key s = Some k" and "37 \<le> length buf"
  shows "serverIn E s buf =
     (let m = cipherName s; tail = tail_of E m k buf; alen = alen_of E m k buf in
      if length buf \<le> 35 + alen then
        (Inr (Failed (UnexpectedLength2 (length buf) buf)), after_handshake E s k buf)
      else if expected_tag E m k buf \<noteq> carried_tag buf then
        (Inr (Failed (UnexpectedHmac (carried_tag buf) (expected_tag E m k buf))),
         after_handshake E s k buf)
      else
        (Inr (ConnectToDst (Buffer_toString E (take alen (drop 1 tail)))
                (unat (tail ! (alen + 1)) * 256 + unat (tail ! (alen + 2)))
                (drop (alen + 3) tail)),
         after_handshake E s k buf))"
  using serverIn_handshake [OF assms, of E]
  by (simp add: Let_def expected_tag_def carried_tag_def mac_region_def HMAC_LEN_def
      slice_buf_consts slice_buf_mac del: of_nat_unat)

text \<open>
  C3. On a first chunk that passes both length checks, \<open>serverIn\<close> calls \<open>fail\<close>
  exactly when the first 16 bytes of the HMAC over \<open>buffer.slice(32, 35 + alen)\<close> differ
  from \<open>buffer.slice(16, 32)\<close>; then it reports the two tags and broadcasts nothing, and
  otherwise it broadcasts. Moreover, take a frame that \<open>serverIn\<close> accepts and change it
  inside the authenticated region only (bytes 32 up to \<open>35 + alen\<close>; flipping one bit
  there is such a change): the changed frame is rejected, provided the truncated HMAC does
  not give the two different authenticated regions the same tag.
\<close>

theorem serverIn_hmac_rejection:
  assumes "\<not> isHandshakeDone s" and "key s = Some k"
  shows
    "(37 \<le> length buf \<and> 35 + alen_of E (cipherName s) k buf < length buf \<longrightarrow>
        ((\<exists>r. fst (serverIn E s buf) = Inr (Failed r)) \<longleftrightarrow>
           expected_tag E (cipherName s) k buf \<noteq> carried_tag buf) \<and>
        (expected_tag E (cipherName s) k buf \<noteq> carried_tag buf \<longrightarrow>
           fst (serverIn E s buf) =
             Inr (Failed (UnexpectedHmac (carried_tag buf) (expected_tag E (cipherName s) k buf)))) \<and>
        (expected_tag E (cipherName s) k buf = carried_tag buf \<longrightarrow>
           (\<exists>a prt d. fst (serverIn E s buf) = Inr (ConnectToDst a prt d)))) \<and>
     (fst (serverIn E s frame) = Inr (ConnectToDst a0 prt0 d0) \<and>
      length frame' = length frame \<and> frame' \<noteq> frame \<and>
      (\<forall>j < length frame.
          j < 32 \<or> 35 + alen_of E (cipherName s) k frame \<le> j \<longrightarrow> frame' ! j = frame ! j) \<and>
      (mac_region E (cipherName s) k frame' \<noteq> mac_region E (cipherName s) k frame \<longrightarrow>
         slice_buf (hmac E ''sha1'' k (mac_region E (cipherName s) k frame')) 0 (int HMAC_LEN) \<noteq>
         slice_buf (hmac E ''sha1'' k (mac_region E (cipherName s) k frame)) 0 (int HMAC_LEN)) \<longrightarrow>
      (\<exists>r. fst (serverIn E s frame') = Inr (Failed r)))"
proof -
  let ?m = "cipherName s"
  have part1: "37 \<le> length buf \<and> 35 + alen_of E ?m k buf < length buf \<longrightarrow>
        ((\<exists>r. fst (serverIn E s buf) = Inr (Failed r)) \<longleftrightarrow>
           expected_tag E ?m k buf \<noteq> carried_tag buf) \<and>
        (expected_tag E ?m k buf \<noteq> carried_tag buf \<longrightarrow>
           fst (serverIn E s buf) =
             Inr (Failed (UnexpectedHmac (carried_tag buf) (expected_tag E ?m k buf)))) \<and>
        (expected_tag E ?m k buf = carried_tag buf \<longrightarrow>
           (\<exists>a prt d. fst (serverIn E s buf) = Inr (ConnectToDst a prt d)))"
    using serverIn_first_chunk [OF assms, of buf E] by (simp add: Let_def)
  have part2: "\<exists>r. fst (serverIn E s frame') = Inr (Failed r)"
    if valid: "fst (serverIn E s frame) = Inr (ConnectToDst a0 prt0 d0)"
      and len: "length frame' = length frame"
      and diff: "frame' \<noteq> frame"
      and outside: "\<forall>j < length frame.
          j < 32 \<or> 35 + alen_of E ?m k frame \<le> j \<longrightarrow> frame' ! j = frame ! j"
      and nocoll: "mac_region E ?m k frame' \<noteq> mac_region E ?m k frame \<longrightarrow>
         slice_buf (hmac E ''sha1'' k (mac_region E ?m k frame')) 0 (int HMAC_LEN) \<noteq>
         slice_buf (hmac E ''sha1'' k (mac_region E ?m k frame)) 0 (int HMAC_LEN)"
  proof -
    let ?n = "alen_of E ?m k frame" and ?n' = "alen_of E ?m k frame'"
    have long: "37 \<le> length frame"
    proof (rule ccontr)
      assume "\<not> 37 \<le> length frame"
      then have "length frame < 37" by simp
      from serverIn_below_37 [OF assms(1) this, of E] valid show False by simp
    qed
    have acc: "35 + ?n < length frame \<and> expected_tag E ?m k frame = carried_tag frame"
      using serverIn_first_chunk [OF assms long, of E] valid
      by (auto simp: Let_def split: if_splits)
    have carried: "carried_tag frame' = carried_tag frame"
    proof -
      have "take 16 (drop 16 frame') = take 16 (drop 16 frame)"
      proof (rule nth_equalityI)
        show "length (take 16 (drop 16 frame')) = length (take 16 (drop 16 frame))"
          using len by simp
      next
        fix i assume "i < length (take 16 (drop 16 frame'))"
        then have i: "i < 16" and "16 + i < length frame" using len by auto
        with outside have "frame' ! (16 + i) = frame ! (16 + i)" by simp
        with i len long show "take 16 (drop 16 frame') ! i = take 16 (drop 16 frame) ! i"
          by simp
      qed
      then show ?thesis by (simp add: carried_tag_def slice_buf_consts)
    qed
    show ?thesis
    proof (cases "length frame' \<le> 35 + ?n'")
      case True
      with serverIn_first_chunk [OF assms, of frame' E] long len show ?thesis
        by (simp add: Let_def)
    next
      case False
      have regions: "mac_region E ?m k frame' \<noteq> mac_region E ?m k frame"
      proof (cases "?n' = ?n")
        case True
        from diff len obtain j where j: "j < length frame" "frame' ! j \<noteq> frame ! j"
          by (auto simp: list_eq_iff_nth_eq)
        with outside have jr: "32 \<le> j" "j < 35 + ?n" by force+
        then have "take (3 + ?n) (drop 32 frame') ! (j - 32) = frame' ! j"
          and "take (3 + ?n) (drop 32 frame) ! (j - 32) = frame ! j"
          using j len by simp_all
        with j have "take (3 + ?n) (drop 32 frame') \<noteq> take (3 + ?n) (drop 32 frame)"
          by metis
        with True show ?thesis
          by (simp add: mac_region_def slice_buf_mac del: of_nat_unat)
      next
        case neq: False
        have "length (mac_region E ?m k frame') = 3 + ?n'"
          using False len by (auto simp: mac_region_def slice_buf_mac simp del: of_nat_unat)
        moreover have "length (mac_region E ?m k frame) = 3 + ?n"
          using acc by (auto simp: mac_region_def slice_buf_mac simp del: of_nat_unat)
        ultimately show ?thesis using neq by auto
      qed
      with nocoll acc carried have "expected_tag E ?m k frame' \<noteq> carried_tag frame'"
        by (simp add: expected_tag_def)
      with serverIn_first_chunk [OF assms, of frame' E] long len False show ?thesis
        by (simp add: Let_def)
    qed
  qed
  from part1 part2 show ?thesis by blast
qed

theorem serverIn_hmac_rejection_witness:
  "\<not> isHandshakeDone sample_server \<and> key sample_server = Some sample_key \<and>
   37 \<le> length sample_frame \<and>
   35 + alen_of xor_env ''aes-128-ctr'' sample_key sample_frame < length sample_frame \<and>
   expected_tag xor_env ''aes-128-ctr'' sample_key sample_frame = carried_tag sample_frame \<and>
   (\<exists>a prt d. fst (serverIn xor_env sample_server sample_frame) = Inr (ConnectToDst a prt d)) \<and>
   length flipped_frame = length sample_frame \<and> flipped_frame \<noteq> sample_frame \<and>
   (\<exists>r. fst (serverIn xor_env sample_server flipped_frame) = Inr (Failed r))"
proof -
  have a: "\<not> isHandshakeDone sample_server" by (simp add: sample_server_def)
  have b: "key sample_server = Some sample_key" by (simp add: sample_server_def)
  have m: "cipherName sample_server = ''aes-128-ctr''" by (simp add: sample_server_def)
  have c: "37 \<le> length sample_frame" by (simp add: sample_frame_def)
  have al: "alen_of xor_env ''aes-128-ctr'' sample_key sample_frame = 4" by code_simp
  have tg: "expected_tag xor_env ''aes-128-ctr'' sample_key sample_frame = carried_tag sample_frame"
    by code_simp
  have valid: "fst (serverIn xor_env sample_server sample_frame) =
      Inr (ConnectToDst ''a.io'' 80 [104, 105])"
    by code_simp
  have len: "length flipped_frame = length sample_frame" by (simp add: flipped_frame_def)
  have diff: "flipped_frame \<noteq> sample_frame" by code_simp
  have outside: "\<forall>j < length sample_frame.
      j < 32 \<or> 35 + alen_of xor_env ''aes-128-ctr'' sample_key sample_frame \<le> j \<longrightarrow>
      flipped_frame ! j = sample_frame ! j"
    by (auto simp: al flipped_frame_def)
  have tags: "slice_buf (hmac xor_env ''sha1'' sample_key
          (mac_region xor_env ''aes-128-ctr'' sample_key flipped_frame)) 0 (int HMAC_LEN) \<noteq>
      slice_buf (hmac xor_env ''sha1'' sample_key
          (mac_region xor_env ''aes-128-ctr'' sample_key sample_frame)) 0 (int HMAC_LEN)"
    by code_simp
  then have nocoll: "mac_region xor_env ''aes-128-ctr'' sample_key flipped_frame \<noteq>
        mac_region xor_env ''aes-128-ctr'' sample_key sample_frame \<longrightarrow>
      slice_buf (hmac xor_env ''sha1'' sample_key
          (mac_region xor_env ''aes-128-ctr'' sample_key flipped_frame)) 0 (int HMAC_LEN) \<noteq>
      slice_buf (hmac xor_env ''sha1'' sample_key
          (mac_region xor_env ''aes-128-ctr'' sample_key sample_frame)) 0 (int HMAC_LEN)"
    by simp
  from serverIn_hmac_rejection [OF a b, where E = xor_env and buf = sample_frame
      and frame = sample_frame and frame' = flipped_frame
      and ?a0.0 = "''a.io''" and ?prt0.0 = 80 and ?d0.0 = "[104, 105]"]
    valid len diff outside nocoll
  have "\<exists>r. fst (serverIn xor_env sample_server flipped_frame) = Inr (Failed r)"
    unfolding m by blast
  with a b c al tg valid len diff show ?thesis by (simp add: sample_frame_def)
qed

section \<open>A first chunk with ALEN = 0\<close>

text \<open>
  C5, as the code has it. \<open>serverIn\<close> has no check of \<open>ALEN\<close> against 0. On a first
  chunk of at least 37 bytes whose decrypted tail begins with the byte 0, it compares the
  truncated HMAC over \<open>buffer.slice(32, 35)\<close> with the tag: it fails when they differ, and
  when they agree it broadcasts \<open>SOCKET_CONNECT_TO_DST\<close> with an empty host, the port read
  from the next two bytes and the rest of the tail as data.
\<close>

theorem serverIn_alen_zero:
  assumes "\<not> isHandshakeDone s" and "key s = Some k" and "37 \<le> length buf"
    and "tail_of E (cipherName s) k buf = 0 # rest"
  shows "fst (serverIn E s buf) =
     (if slice_buf (hmac E ''sha1'' k (slice_buf buf 32 35)) 0 (int HMAC_LEN) \<noteq> slice_buf buf 16 32
      then Inr (Failed (UnexpectedHmac (slice_buf buf 16 32)
                  (slice_buf (hmac E ''sha1'' k (slice_buf buf 32 35)) 0 (int HMAC_LEN))))
      else Inr (ConnectToDst (Buffer_toString E [])
                  (unat (rest ! 0) * 256 + unat (rest ! 1)) (drop 2 rest)))"
proof -
  have al: "alen_of E (cipherName s) k buf = 0"
    using assms(4) by (simp add: alen_of_def)
  have mac: "mac_region E (cipherName s) k buf = slice_buf buf 32 35"
    by (simp add: mac_region_def al)
  from serverIn_first_chunk [OF assms(1-3), of E] assms(3,4) show ?thesis
    by (simp add: Let_def al expected_tag_def carried_tag_def mac)
qed

theorem serverIn_alen_zero_witness:
  "\<not> isHandshakeDone sample_server \<and> key sample_server = Some sample_key \<and>
   37 \<le> length alen0_frame \<and>
   tail_of xor_env (cipherName sample_server) sample_key alen0_frame = 0 # [0, 80, 104, 105] \<and>
   slice_buf (hmac xor_env ''sha1'' sample_key (slice_buf alen0_frame 32 35)) 0 (int HMAC_LEN) =
     slice_buf alen0_frame 16 32 \<and>
   fst (serverIn xor_env sample_server alen0_frame) =
     Inr (ConnectToDst (Buffer_toString xor_env []) 80 [104, 105])"
proof -
  have a: "\<not> isHandshakeDone sample_server" by (simp add: sample_server_def)
  have b: "key sample_server = Some sample_key" by (simp add: sample_server_def)
  have c: "37 \<le> length alen0_frame" by (simp add: alen0_frame_def)
  have d: "tail_of xor_env (cipherName sample_server) sample_key alen0_frame = 0 # [0, 80, 104, 105]"
    by code_simp
  have e: "slice_buf (hmac xor_env ''sha1'' sample_key (slice_buf alen0_frame 32 35)) 0 (int HMAC_LEN) =
     slice_buf alen0_frame 16 32"
    by code_simp
  from serverIn_alen_zero [OF a b c d] a b c d e show ?thesis by simp
qed

text \<open>
  The claim as stated fails on a frame with \<open>ALEN = 0\<close> and a consistent tag, such as
  the one \<open>clientOut\<close> builds for an empty host: the handshake is accepted and the
  connection to an empty host is broadcast.
\<close>

theorem alen_zero_accepted:
  "fst (clientOut xor_env sample_iv (sample_client []) [104, 105]) = Inr alen0_frame \<and>
   tail_of xor_env ''aes-128-ctr'' sample_key alen0_frame = [0, 0, 80, 104, 105] \<and>
   serverIn xor_env sample_server alen0_frame =
     (Inr (ConnectToDst [] 80 [104, 105]),
      sample_server\<lparr>cipher := Some 128, decipher := Some 133\<rparr>)"
  by code_simp

section \<open>Chunks before the connection is up\<close>

text \<open>
  C9, as the code has it. While the flag is unset (the key being set), \<open>serverIn\<close> treats
  every chunk as a first chunk: what it answers does not depend on the cipher objects the
  preset holds, and it fails or broadcasts, never returning data. A chunk of at least 37
  bytes replaces both cipher objects by ones created from its first 16 bytes, the decipher
  having consumed \<open>buffer.slice(32)\<close>; a shorter chunk fails and leaves the state as it
  was. The call leaves the flag unset, so all this holds again for the next chunk, until
  the callback of a broadcast runs.
\<close>

theorem serverIn_before_connected:
  assumes "\<not> isHandshakeDone s" and "key s = Some k"
  shows
    "fst (serverIn E s buf) = fst (serverIn E (s\<lparr>cipher := None, decipher := None\<rparr>) buf) \<and>
     ((\<exists>r. fst (serverIn E s buf) = Inr (Failed r)) \<or>
      (\<exists>a prt d. fst (serverIn E s buf) = Inr (ConnectToDst a prt d))) \<and>
     (37 \<le> length buf \<longrightarrow>
        cipher (snd (serverIn E s buf)) =
          Some (createCipheriv E (cipherName s) k (slice_buf buf 0 (int IV_LEN))) \<and>
        decipher (snd (serverIn E s buf)) =
          Some (snd (update (decipher_byte E)
                       (createDecipheriv E (cipherName s) k (slice_buf buf 0 (int IV_LEN)))
                       (slice_buf_from buf 32)))) \<and>
     (length buf < 37 \<longrightarrow> snd (serverIn E s buf) = s) \<and>
     \<not> isHandshakeDone (snd (serverIn E s buf)) \<and> key (snd (serverIn E s buf)) = Some k"
proof (cases "length buf < 37")
  case True
  let ?s' = "s\<lparr>cipher := None, decipher := None\<rparr>"
  have "\<not> isHandshakeDone ?s'" using assms by simp
  from serverIn_below_37 [OF assms(1) True, of E] serverIn_below_37 [OF this True, of E]
    True assms
  show ?thesis by simp
next
  case False
  then have long: "37 \<le> length buf" by simp
  let ?s' = "s\<lparr>cipher := None, decipher := None\<rparr>"
  have f': "\<not> isHandshakeDone ?s'" and k': "key ?s' = Some k" using assms by simp_all
  from serverIn_first_chunk [OF assms long, of E] serverIn_first_chunk [OF f' k' long, of E]
    long assms
  show ?thesis
    by (simp add: Let_def after_handshake_def IV_LEN_def slice_buf_consts)
qed

theorem serverIn_before_connected_witness:
  "\<not> isHandshakeDone (snd (serverIn xor_env sample_server sample_frame)) \<and>
   key (snd (serverIn xor_env sample_server sample_frame)) = Some sample_key \<and>
   fst (serverIn xor_env sample_server sample_frame) = Inr (ConnectToDst ''a.io'' 80 [104, 105]) \<and>
   cipher (snd (serverIn xor_env sample_server sample_frame)) = Some 128 \<and>
   decipher (snd (serverIn xor_env sample_server sample_frame)) = Some 137 \<and>
   37 \<le> length alen0_frame \<and>
   fst (serverIn xor_env (snd (serverIn xor_env sample_server sample_frame)) alen0_frame) =
     Inr (ConnectToDst [] 80 [104, 105]) \<and>
   cipher (snd (serverIn xor_env (snd (serverIn xor_env sample_server sample_frame)) alen0_frame)) =
     Some (createCipheriv xor_env ''aes-128-ctr'' sample_key (slice_buf alen0_frame 0 (int IV_LEN))) \<and>
   decipher (snd (serverIn xor_env (snd (serverIn xor_env sample_server sample_frame)) alen0_frame)) =
     Some (snd (update (decipher_byte xor_env)
                  (createDecipheriv xor_env ''aes-128-ctr'' sample_key
                     (slice_buf alen0_frame 0 (int IV_LEN)))
                  (slice_buf_from alen0_frame 32)))"
proof -
  let ?s1 = "snd (serverIn xor_env sample_server sample_frame)"
  have a: "\<not> isHandshakeDone ?s1" by code_simp
  have b: "key ?s1 = Some sample_key" by code_simp
  have m: "cipherName ?s1 = ''aes-128-ctr''" by code_simp
  have first: "fst (serverIn xor_env sample_server sample_frame) =
      Inr (ConnectToDst ''a.io'' 80 [104, 105])"
    by code_simp
  have est: "cipher ?s1 = Some 128" "decipher ?s1 = Some 137" by code_simp+
  have c: "37 \<le> length alen0_frame" by (simp add: alen0_frame_def)
  have second: "fst (serverIn xor_env ?s1 alen0_frame) = Inr (ConnectToDst [] 80 [104, 105])"
    by code_simp
  from serverIn_before_connected [OF a b, of xor_env alen0_frame] a b c m first est second
  show ?thesis by simp
qed

text \<open>
  The claim as stated fails on a short chunk: after a broadcast and before its callback,
  a chunk of 36 bytes fails and the cipher objects of the first handshake stay, although
  one created from the first 16 bytes of the new chunk would be a different one.
\<close>

theorem short_chunk_keeps_cipher:
  "fst (serverIn xor_env sample_server sample_frame) = Inr (ConnectToDst ''a.io'' 80 [104, 105]) \<and>
   \<not> isHandshakeDone (snd (serverIn xor_env sample_server sample_frame)) \<and>
   cipher (snd (serverIn xor_env sample_server sample_frame)) = Some 128 \<and>
   decipher (snd (serverIn xor_env sample_server sample_frame)) = Some 137 \<and>
   serverIn xor_env (snd (serverIn xor_env sample_server sample_frame)) (replicate 36 7) =
     (Inr (Failed (UnexpectedLength1 36 (replicate 36 7))),
      snd (serverIn xor_env sample_server sample_frame)) \<and>
   createCipheriv xor_env ''aes-128-ctr'' sample_key (slice_buf (replicate 36 7) 0 (int IV_LEN)) = 248"
  by code_simp

section \<open>The first chunk on the client\<close>

lemma clientOut_first:
  assumes "\<not> isHandshakeDone s" and "key s = Some k" and "host s = Some h" and "port s = Some p"
  shows "clientOut E iv s buf =
     (let c0 = createCipheriv E (cipherName s) k iv;
          encBuf = fst (update (cipher_byte E) c0 (address_header h p @ buf));
          c' = snd (update (cipher_byte E) c0 (address_header h p @ buf));
          enc_addr = (if buf = [] then [] else take (length encBuf - length buf) encBuf)
      in (Inr (iv @ take 16 (hmac E ''sha1'' k enc_addr) @ encBuf),
          s\<lparr>isHandshakeDone := True, cipher := Some c',
            decipher := Some (createDecipheriv E (cipherName s) k iv)\<rparr>))"
proof -
  have tag: "slice_buf (hmac E ''sha1'' k x) 0 (int HMAC_LEN) = take 16 (hmac E ''sha1'' k x)" for x
    by (simp add: HMAC_LEN_def slice_buf_consts)
  have empty: "slice_buf x 0 0 = []" for x :: buffer
    by (simp add: slice_buf_def)
  show ?thesis
    using assms
    by (simp add: clientOut_def encrypt_def Let_def address_header_def tag slice_buf_0_neg empty
        split: prod.splits)
qed

lemma numberToBuffer_Suc_0: "numberToBuffer n (Suc 0) = [of_nat n]"
  using numberToBuffer_1 [of n] by simp

lemma length_address_header: "length (address_header h p) = 1 + length h + length p"
  by (simp add: address_header_def numberToBuffer_Suc_0)

lemma length_StreamEncrypt: "length (StreamEncrypt E m k iv pt) = length pt"
  by (simp add: StreamEncrypt_def length_update)

lemma StreamEncrypt_append:
  "take (length xs) (StreamEncrypt E m k iv (xs @ ys)) = StreamEncrypt E m k iv xs"
  by (simp add: StreamEncrypt_def fst_update_append length_update)

text \<open>
  C4, as the code has it. For every first chunk \<open>DATA\<close> that is not empty (and a host
  of at most 255 bytes, whose length one byte holds), the frame
  \<open>clientOut\<close> returns is \<open>IV || tag || ciphertext\<close> as the specification builds it:
  the ciphertext encrypts \<open>ALEN || DST.ADDR || DST.PORT || DATA\<close>, the tag is the first 16
  bytes of the HMAC over the ciphertext without its last \<open>DATA.len\<close> bytes, and these
  bytes are the encryption of the address header alone.
\<close>

theorem clientOut_handshake_frame:
  assumes "\<not> isHandshakeDone s" and "key s = Some k" and "host s = Some h" and "port s = Some p"
    and "DATA \<noteq> []" and "length h \<le> 255"
  shows "fst (clientOut E iv s DATA) = Inr (spec_frame E (cipherName s) k iv h p DATA) \<and>
     (let ciphertext = StreamEncrypt E (cipherName s) k iv (address_header h p @ DATA)
      in take (length ciphertext - length DATA) ciphertext =
           StreamEncrypt E (cipherName s) k iv (address_header h p))"
proof -
  let ?ct = "StreamEncrypt E (cipherName s) k iv (address_header h p @ DATA)"
  have "length ?ct - length DATA = length (address_header h p)"
    by (simp add: length_StreamEncrypt)
  then have "take (length ?ct - length DATA) ?ct =
      StreamEncrypt E (cipherName s) k iv (address_header h p)"
    by (simp add: StreamEncrypt_append)
  moreover have "fst (clientOut E iv s DATA) = Inr (spec_frame E (cipherName s) k iv h p DATA)"
    using clientOut_first [OF assms(1-4), of E iv DATA] assms(5)
    by (simp add: Let_def spec_frame_def StreamEncrypt_def)
  ultimately show ?thesis by (simp add: Let_def)
qed

theorem clientOut_handshake_frame_witness:
  "\<not> isHandshakeDone (sample_client sample_host) \<and>
   key (sample_client sample_host) = Some sample_key \<and>
   host (sample_client sample_host) = Some sample_host \<and>
   port (sample_client sample_host) = Some [0, 80] \<and> [104, 105] \<noteq> ([] :: buffer) \<and>
   length sample_host \<le> 255 \<and>
   fst (clientOut xor_env sample_iv (sample_client sample_host) [104, 105]) =
     Inr (spec_frame xor_env ''aes-128-ctr'' sample_key sample_iv sample_host [0, 80] [104, 105]) \<and>
   spec_frame xor_env ''aes-128-ctr'' sample_key sample_iv sample_host [0, 80] [104, 105] =
     sample_frame \<and>
   take 7 (StreamEncrypt xor_env ''aes-128-ctr'' sample_key sample_iv
             (address_header sample_host [0, 80] @ [104, 105])) =
     StreamEncrypt xor_env ''aes-128-ctr'' sample_key sample_iv (address_header sample_host [0, 80])"
proof -
  have a: "\<not> isHandshakeDone (sample_client sample_host)" by (simp add: sample_client_def)
  have b: "key (sample_client sample_host) = Some sample_key" by (simp add: sample_client_def)
  have c: "host (sample_client sample_host) = Some sample_host" by (simp add: sample_client_def)
  have d: "port (sample_client sample_host) = Some [0, 80]" by (simp add: sample_client_def)
  have e: "[104, 105] \<noteq> ([] :: buffer)" by simp
  have m: "cipherName (sample_client sample_host) = ''aes-128-ctr''" by (simp add: sample_client_def)
  have f: "spec_frame xor_env ''aes-128-ctr'' sample_key sample_iv sample_host [0, 80] [104, 105] =
     sample_frame"
    by code_simp
  have g: "length (StreamEncrypt xor_env ''aes-128-ctr'' sample_key sample_iv
             (address_header sample_host [0, 80] @ [104, 105])) = 9"
    by code_simp
  have h: "length sample_host \<le> 255" by (simp add: sample_host_def)
  from clientOut_handshake_frame [OF a b c d e h, of xor_env sample_iv] a b c d e f g h
  show ?thesis by (simp add: m Let_def)
qed

text \<open>
  The claim as stated fails on an empty first chunk: \<open>encBuf.slice(0, -0)\<close> is empty,
  and the frame carries the tag of the empty string, not that of the address header.
\<close>

theorem empty_chunk_tag:
  "fst (clientOut xor_env sample_iv (sample_client sample_host) []) \<noteq>
     Inr (spec_frame xor_env ''aes-128-ctr'' sample_key sample_iv sample_host [0, 80] [])"
  by code_simp

section \<open>Decrypting what the client encrypted\<close>

lemma stream_pair_decrypt:
  assumes "stream_pair E c d"
  shows "fst (update (decipher_byte E) d (fst (update (cipher_byte E) c xs))) = xs"
  using assms by (simp add: stream_pair_def)

lemma stream_pair_split:
  assumes pair: "stream_pair E c d" and ct: "fst (update (cipher_byte E) c pt) = a @ b"
  shows "fst (update (decipher_byte E) d a) = take (length a) pt"
    and "fst (update (decipher_byte E) (snd (update (decipher_byte E) d a)) b) = drop (length a) pt"
proof -
  let ?da = "fst (update (decipher_byte E) d a)"
  let ?db = "fst (update (decipher_byte E) (snd (update (decipher_byte E) d a)) b)"
  have "?da @ ?db = pt"
    using stream_pair_decrypt [OF pair, of pt] ct by (simp add: fst_update_append)
  moreover have "length ?da = length a" by (simp add: length_update)
  ultimately show "?da = take (length a) pt" and "?db = drop (length a) pt"
    by (metis append_eq_conv_conj)+
qed

lemma stream_pair_step:
  assumes pair: "stream_pair E c d"
  shows "stream_pair E (snd (update (cipher_byte E) c xs))
           (snd (update (decipher_byte E) d (fst (update (cipher_byte E) c xs))))"
  unfolding stream_pair_def
proof
  fix ys
  let ?a = "fst (update (cipher_byte E) c xs)"
  let ?b = "fst (update (cipher_byte E) (snd (update (cipher_byte E) c xs)) ys)"
  have "fst (update (cipher_byte E) c (xs @ ys)) = ?a @ ?b"
    by (simp add: fst_update_append)
  from stream_pair_split(2) [OF pair this] show
    "fst (update (decipher_byte E) (snd (update (decipher_byte E) d ?a)) ?b) = ys"
    by (simp add: length_update)
qed

lemma drop_header: "drop (length h + 3) (a # h @ p0 # p1 # xs) = xs"
  using drop_append [of "length h + 3" "a # h @ [p0, p1]" xs] by simp

lemma spec_frame_layout:
  assumes "x0 \<noteq> []"
  shows "spec_frame E m k iv h p x0 =
     iv @ take 16 (hmac E ''sha1'' k (StreamEncrypt E m k iv (address_header h p)))
        @ StreamEncrypt E m k iv (address_header h p @ x0)"
proof -
  let ?ct = "StreamEncrypt E m k iv (address_header h p @ x0)"
  have "length ?ct - length x0 = length (address_header h p)"
    by (simp add: length_StreamEncrypt)
  then have "take (length ?ct - length x0) ?ct = StreamEncrypt E m k iv (address_header h p)"
    by (simp add: StreamEncrypt_append)
  then show ?thesis by (simp add: spec_frame_def Let_def)
qed

lemma serverIn_frame_prefix:
  assumes srv: "\<not> isHandshakeDone s" "key s = Some k" "cipherName s = m"
    and pair: "stream_pair E (createCipheriv E m k iv) (createDecipheriv E m k iv)"
    and iv: "length iv = 16"
    and mac: "16 \<le> length (hmac E ''sha1'' k (StreamEncrypt E m k iv (address_header h p)))"
    and h: "length h \<le> 255" and p: "length p = 2" and x0: "x0 \<noteq> []"
    and n: "37 \<le> n" "35 + length h < n" "n \<le> length (spec_frame E m k iv h p x0)"
  shows "serverIn E s (take n (spec_frame E m k iv h p x0)) =
     (Inr (ConnectToDst (Buffer_toString E h) (unat (p ! 0) * 256 + unat (p ! 1))
             (take (n - (35 + length h)) x0)),
      s\<lparr>cipher := Some (createCipheriv E m k iv),
        decipher := Some (snd (update (decipher_byte E) (createDecipheriv E m k iv)
                            (take (n - 32) (StreamEncrypt E m k iv (address_header h p @ x0)))))\<rparr>)"
proof -
  let ?hdr = "address_header h p"
  let ?pt = "?hdr @ x0"
  let ?ct = "StreamEncrypt E m k iv ?pt"
  let ?tag = "take 16 (hmac E ''sha1'' k (StreamEncrypt E m k iv ?hdr))"
  let ?x1 = "take (n - (35 + length h)) x0"
  define f where "f = take n (spec_frame E m k iv h p x0)"
  define ct1 where "ct1 = take (n - 32) ?ct"
  have ltag: "length ?tag = 16" using mac by simp
  have frame: "spec_frame E m k iv h p x0 = iv @ ?tag @ ?ct"
    by (rule spec_frame_layout [OF x0])
  have f: "f = iv @ ?tag @ ct1"
    using n(1) iv ltag by (simp add: f_def ct1_def frame)
  have lct1: "length ct1 = n - 32"
    using n(3) iv ltag by (simp add: ct1_def frame)
  have lf: "length f = n" using n(3) by (simp add: f_def)
  have t16: "take 16 f = iv" using iv by (simp add: f)
  have d32: "drop 32 f = ct1" using iv ltag by (simp add: f)
  have d16: "take 16 (drop 16 f) = ?tag" using iv ltag by (simp add: f)
  have "fst (update (cipher_byte E) (createCipheriv E m k iv) ?pt) = ct1 @ drop (n - 32) ?ct"
    by (simp add: StreamEncrypt_def ct1_def)
  from stream_pair_split(1) [OF pair this]
  have "fst (update (decipher_byte E) (createDecipheriv E m k iv) ct1) = take (n - 32) ?pt"
    by (simp only: lct1)
  then have tail: "tail_of E m k f = take (n - 32) ?pt"
    by (simp add: tail_of_def t16 d32)
  have lhdr: "length ?hdr = 3 + length h"
    by (simp add: length_address_header p)
  have tail': "tail_of E m k f = of_nat (length h) # h @ p @ ?x1"
  proof -
    have "take (n - 32) (?hdr @ x0) = ?hdr @ take (n - 32 - (3 + length h)) x0"
      using n(2) lhdr by simp
    moreover have "n - 32 - (3 + length h) = n - (35 + length h)" by simp
    ultimately have "tail_of E m k f = ?hdr @ ?x1" by (simp only: tail)
    then show ?thesis by (simp add: address_header_def numberToBuffer_Suc_0)
  qed
  have al: "alen_of E m k f = length h"
    using h by (simp add: alen_of_def tail' unat_of_nat)
  have region: "mac_region E m k f = StreamEncrypt E m k iv ?hdr"
  proof -
    have "mac_region E m k f = take (3 + length h) ct1"
      by (simp add: mac_region_def al slice_buf_mac d32 del: of_nat_unat)
    also have "\<dots> = take (3 + length h) ?ct"
    proof -
      have "min (3 + length h) (n - 32) = 3 + length h" using n(2) by simp
      then show ?thesis by (simp add: ct1_def)
    qed
    also have "\<dots> = StreamEncrypt E m k iv ?hdr"
      using StreamEncrypt_append [of ?hdr E m k iv x0] by (simp add: lhdr)
    finally show ?thesis .
  qed
  have tags: "expected_tag E m k f = carried_tag f"
    by (simp add: expected_tag_def carried_tag_def region HMAC_LEN_def slice_buf_consts d16)
  obtain p0 p1 where pp: "p = [p0, p1]"
    using p by (cases p; cases "tl p") auto
  have parts: "take (length h) (drop 1 (tail_of E m k f)) = h"
    "tail_of E m k f ! (length h + 1) = p ! 0"
    "tail_of E m k f ! (length h + 2) = p ! 1"
    "drop (length h + 3) (tail_of E m k f) = ?x1"
    by (simp_all add: tail' pp nth_append drop_header)
  have st: "after_handshake E s k f =
      s\<lparr>cipher := Some (createCipheriv E m k iv),
        decipher := Some (snd (update (decipher_byte E) (createDecipheriv E m k iv) ct1))\<rparr>"
    by (simp add: after_handshake_def srv(3) t16 d32)
  have long: "37 \<le> length f" using n(1) lf by simp
  from serverIn_first_chunk [OF srv(1,2) long, of E] n(2) have
    "serverIn E s f =
       (Inr (ConnectToDst (Buffer_toString E h) (unat (p ! 0) * 256 + unat (p ! 1)) ?x1),
        s\<lparr>cipher := Some (createCipheriv E m k iv),
          decipher := Some (snd (update (decipher_byte E) (createDecipheriv E m k iv) ct1))\<rparr>)"
    by (simp only: Let_def srv(3) al tags parts st lf) simp
  then show ?thesis by (simp only: f_def ct1_def)
qed

section \<open>The round trip\<close>

lemma new_preset_fields:
  assumes "new_preset E is_client (Some pw) ty h0 p (Some m) = Inr c" and "pw \<noteq> []"
  shows "\<not> isHandshakeDone c" and "key c = Some (EVP_BytesToKey E pw (keyLen m) IV_LEN)"
    and "cipherName c = m" and "m \<in> set ciphers" and "is_client \<Longrightarrow> port c = Some p"
  using assms by (auto simp: new_preset_def split: if_splits)

lemma forward_chunk:
  assumes "linked E c s"
  shows "\<exists>y c' s'. clientOut E iv c x = (Inr y, c') \<and> serverIn E s y = (Inr (Output x), s') \<and>
           linked E c' s'"
proof -
  from assms obtain cf df cb db where
    flags: "isHandshakeDone c" "isHandshakeDone s"
    and fwd: "cipher c = Some cf" "decipher s = Some df" "stream_pair E cf df"
    and bwd: "cipher s = Some cb" "decipher c = Some db" "stream_pair E cb db"
    by (auto simp: linked_def)
  let ?y = "fst (update (cipher_byte E) cf x)"
  let ?c' = "c\<lparr>cipher := Some (snd (update (cipher_byte E) cf x))\<rparr>"
  let ?s' = "s\<lparr>decipher := Some (snd (update (decipher_byte E) df ?y))\<rparr>"
  have out: "clientOut E iv c x = (Inr ?y, ?c')"
    using flags(1) fwd(1) by (simp add: clientOut_def encrypt_def case_prod_beta)
  have "fst (update (decipher_byte E) df ?y) = x"
    by (rule stream_pair_decrypt [OF fwd(3)])
  then have inp: "serverIn E s ?y = (Inr (Output x), ?s')"
    using flags(2) fwd(2) by (simp add: serverIn_def decrypt_def case_prod_beta)
  have "linked E ?c' ?s'"
    using flags fwd bwd stream_pair_step [OF fwd(3), of x] by (simp add: linked_def)
  with out inp show ?thesis by blast
qed

lemma backward_chunk:
  assumes "linked E c s"
  shows "\<exists>y c' s'. serverOut E s x = (Inr y, s') \<and> clientIn E c y = (Inr x, c') \<and>
           linked E c' s'"
proof -
  from assms obtain cf df cb db where
    flags: "isHandshakeDone c" "isHandshakeDone s"
    and fwd: "cipher c = Some cf" "decipher s = Some df" "stream_pair E cf df"
    and bwd: "cipher s = Some cb" "decipher c = Some db" "stream_pair E cb db"
    by (auto simp: linked_def)
  let ?y = "fst (update (cipher_byte E) cb x)"
  let ?s' = "s\<lparr>cipher := Some (snd (update (cipher_byte E) cb x))\<rparr>"
  let ?c' = "c\<lparr>decipher := Some (snd (update (decipher_byte E) db ?y))\<rparr>"
  have out: "serverOut E s x = (Inr ?y, ?s')"
    using bwd(1) by (simp add: serverOut_def encrypt_def case_prod_beta)
  have "fst (update (decipher_byte E) db ?y) = x"
    by (rule stream_pair_decrypt [OF bwd(3)])
  then have inp: "clientIn E c ?y = (Inr x, ?c')"
    using bwd(2) by (simp add: clientIn_def decrypt_def case_prod_beta)
  have "linked E ?c' ?s'"
    using flags fwd bwd stream_pair_step [OF bwd(3), of x] by (simp add: linked_def)
  with out inp show ?thesis by blast
qed

lemma relay_linked:
  assumes "linked E c s"
  shows "relay E iv c s ms = map (\<lambda>m. Some (payload m)) ms"
  using assms
proof (induction ms arbitrary: c s)
  case Nil
  show ?case by simp
next
  case (Cons m ms)
  show ?case
  proof (cases m)
    case (Forward x)
    from forward_chunk [OF Cons.prems, of iv x] obtain y c' s' where
      "clientOut E iv c x = (Inr y, c')" "serverIn E s y = (Inr (Output x), s')" "linked E c' s'"
      by blast
    with Cons.IH [of c' s'] Forward show ?thesis by simp
  next
    case (Backward x)
    from backward_chunk [OF Cons.prems, of x] obtain y c' s' where
      "serverOut E s x = (Inr y, s')" "clientIn E c y = (Inr x, c')" "linked E c' s'"
      by blast
    with Cons.IH [of c' s'] Backward show ?thesis by simp
  qed
qed

lemma handshake_links:
  assumes cl: "\<not> isHandshakeDone c" "key c = Some k" "host c = Some h" "port c = Some p"
      "cipherName c = m"
    and srv: "\<not> isHandshakeDone s" "key s = Some k" "cipherName s = m"
    and pair: "stream_pair E (createCipheriv E m k iv) (createDecipheriv E m k iv)"
    and iv: "length iv = 16"
    and mac: "16 \<le> length (hmac E ''sha1'' k (StreamEncrypt E m k iv (address_header h p)))"
    and h: "1 \<le> length h" "length h \<le> 255" and p: "length p = 2" and x0: "x0 \<noteq> []"
  shows "\<exists>frame c1 s1. clientOut E iv c x0 = (Inr frame, c1) \<and>
      serverIn E s frame =
        (Inr (ConnectToDst (Buffer_toString E h) (unat (p ! 0) * 256 + unat (p ! 1)) x0), s1) \<and>
      linked E c1 (snd (onConnected x0 s1))"
proof -
  let ?pt = "address_header h p @ x0"
  let ?c0 = "createCipheriv E m k iv" and ?d0 = "createDecipheriv E m k iv"
  let ?ct = "StreamEncrypt E m k iv ?pt"
  let ?frame = "spec_frame E m k iv h p x0"
  let ?c1 = "c\<lparr>isHandshakeDone := True, cipher := Some (snd (update (cipher_byte E) ?c0 ?pt)),
       decipher := Some ?d0\<rparr>"
  let ?s1 = "s\<lparr>cipher := Some ?c0,
       decipher := Some (snd (update (decipher_byte E) ?d0 ?ct))\<rparr>"
  have out: "clientOut E iv c x0 = (Inr ?frame, ?c1)"
    using clientOut_first [OF cl(1-4), of E iv x0] x0
    by (simp add: Let_def cl(5) spec_frame_def StreamEncrypt_def)
  have ltag: "length (take 16 (hmac E ''sha1'' k (StreamEncrypt E m k iv (address_header h p)))) = 16"
    using mac by simp
  have lframe: "length ?frame = 35 + length h + length x0"
    using iv ltag
    by (simp only: spec_frame_layout [OF x0] length_append length_StreamEncrypt
        length_address_header p)
  have x0len: "1 \<le> length x0" using x0 by (cases x0) auto
  have n: "37 \<le> length ?frame" "35 + length h < length ?frame" "length ?frame \<le> length ?frame"
    using h(1) x0len x0 by (auto simp: lframe)
  have inp: "serverIn E s ?frame =
      (Inr (ConnectToDst (Buffer_toString E h) (unat (p ! 0) * 256 + unat (p ! 1)) x0), ?s1)"
    using serverIn_frame_prefix [OF srv pair iv mac h(2) p x0 n]
    by (simp add: lframe length_StreamEncrypt length_address_header p)
  have "stream_pair E (snd (update (cipher_byte E) ?c0 ?pt))
          (snd (update (decipher_byte E) ?d0 ?ct))"
    using stream_pair_step [OF pair, of ?pt] by (simp add: StreamEncrypt_def)
  then have "linked E ?c1 (snd (onConnected x0 ?s1))"
    using pair by (simp add: linked_def onConnected_def)
  with out inp show ?thesis by blast
qed

lemma xor_update_inverse: "fst (update xor_step c (fst (update xor_step c xs))) = xs"
proof (induction xs arbitrary: c)
  case Nil
  show ?case by simp
next
  case (Cons b bs)
  have step: "fst (xor_step c x) = xor x c" "snd (xor_step c x) = c + 1" for x
    by (simp_all add: xor_step_def)
  have "xor (xor b c) c = b" by (simp add: xor.assoc)
  with Cons [of "c + 1"] show ?case by (simp add: case_prod_beta step)
qed

lemma xor_env_pair: "stream_pair xor_env c c"
proof -
  have "cipher_byte xor_env = xor_step" "decipher_byte xor_env = xor_step"
    by (simp_all add: xor_env_def)
  then show ?thesis by (simp only: stream_pair_def xor_update_inverse) simp
qed

text \<open>
  C1, as the code has it. Take a client preset and a server preset constructed with the
  same supported method and the same key, a host of 1 to 255 bytes and a port of two
  bytes, a 16-byte IV, a cipher and a decipher that invert each other when created from
  this method, key and IV, and an HMAC of at least 16 bytes. If the first chunk is not
  empty, then \<open>serverIn\<close> recovers from the frame of the first \<open>clientOut\<close> the host,
  the port and the first chunk, which the callback hands on unchanged; and from then on
  every chunk sent forward through \<open>clientOut\<close> and \<open>serverIn\<close>, or backward through
  \<open>serverOut\<close> and \<open>clientIn\<close>, in any interleaving, arrives as it was sent.
\<close>

theorem round_trip:
  assumes client: "new_preset E True (Some pw) ty h0 p (Some m) = Inr c"
    and server: "new_preset E False (Some pw) ty' h1 p1 (Some m) = Inr s"
    and pw: "pw \<noteq> []" and hc: "host c = Some h"
    and k: "k = EVP_BytesToKey E pw (keyLen m) IV_LEN"
    and pair: "stream_pair E (createCipheriv E m k iv) (createDecipheriv E m k iv)"
    and iv: "length iv = 16"
    and mac: "16 \<le> length (hmac E ''sha1'' k (StreamEncrypt E m k iv (address_header h p)))"
    and h: "1 \<le> length h" "length h \<le> 255" and p: "length p = 2" and x0: "x0 \<noteq> []"
  shows "\<exists>frame c1 s1.
      clientOut E iv c x0 = (Inr frame, c1) \<and>
      serverIn E s frame =
        (Inr (ConnectToDst (Buffer_toString E h) (unat (p ! 0) * 256 + unat (p ! 1)) x0), s1) \<and>
      fst (onConnected x0 s1) = x0 \<and>
      relay E iv' c1 (snd (onConnected x0 s1)) msgs = map (\<lambda>msg. Some (payload msg)) msgs"
proof -
  note cf = new_preset_fields [OF client pw]
  note sf = new_preset_fields [OF server pw]
  from handshake_links [OF cf(1) cf(2) [folded k] hc cf(5) cf(3) sf(1) sf(2) [folded k] sf(3)
      pair iv mac h p x0]
  obtain frame c1 s1 where
    "clientOut E iv c x0 = (Inr frame, c1)"
    "serverIn E s frame =
        (Inr (ConnectToDst (Buffer_toString E h) (unat (p ! 0) * 256 + unat (p ! 1)) x0), s1)"
    "linked E c1 (snd (onConnected x0 s1))"
    by blast
  with relay_linked [of E c1 "snd (onConnected x0 s1)" iv' msgs] show ?thesis
    by (simp add: onConnected_def)
qed

theorem round_trip_witness:
  "\<exists>c s. new_preset xor_env True (Some ''secret'') 3 sample_host [0, 80] (Some ''aes-128-ctr'') = Inr c \<and>
     new_preset xor_env False (Some ''secret'') 3 [] [] (Some ''aes-128-ctr'') = Inr s \<and>
     host c = Some sample_host \<and>
     stream_pair xor_env
       (createCipheriv xor_env ''aes-128-ctr'' (EVP_BytesToKey xor_env ''secret'' 16 16) sample_iv)
       (createDecipheriv xor_env ''aes-128-ctr'' (EVP_BytesToKey xor_env ''secret'' 16 16) sample_iv) \<and>
     (\<exists>frame c1 s1.
        clientOut xor_env sample_iv c [104, 105] = (Inr frame, c1) \<and>
        serverIn xor_env s frame = (Inr (ConnectToDst ''a.io'' 80 [104, 105]), s1) \<and>
        fst (onConnected [104, 105] s1) = [104, 105] \<and>
        relay xor_env [] c1 (snd (onConnected [104, 105] s1))
            [Forward [1, 2], Backward [3], Forward [4, 5, 6]] =
          [Some [1, 2], Some [3], Some [4, 5, 6]])"
proof -
  define c :: "(byte, byte) preset" where
    "c = \<lparr> isHandshakeDone = False, host = Some sample_host, port = Some [0, 80],
       cipherName = ''aes-128-ctr'', key = Some (EVP_BytesToKey xor_env ''secret'' 16 16),
       cipher = None, decipher = None \<rparr>"
  define s :: "(byte, byte) preset" where
    "s = \<lparr> isHandshakeDone = False, host = None, port = None,
       cipherName = ''aes-128-ctr'', key = Some (EVP_BytesToKey xor_env ''secret'' 16 16),
       cipher = None, decipher = None \<rparr>"
  have kl: "keyLen ''aes-128-ctr'' = 16" by code_simp
  have client: "new_preset xor_env True (Some ''secret'') 3 sample_host [0, 80] (Some ''aes-128-ctr'') = Inr c"
    by (simp add: new_preset_def c_def ciphers_def ATYP_V4_def ATYP_V6_def kl IV_LEN_def)
  have server: "new_preset xor_env False (Some ''secret'') 3 [] [] (Some ''aes-128-ctr'') = Inr s"
    by (simp add: new_preset_def s_def ciphers_def kl IV_LEN_def)
  have pw: "''secret'' \<noteq> []" by simp
  have hc: "host c = Some sample_host" by (simp add: c_def)
  have k: "EVP_BytesToKey xor_env ''secret'' 16 16 =
      EVP_BytesToKey xor_env ''secret'' (keyLen ''aes-128-ctr'') IV_LEN"
    by (simp add: kl IV_LEN_def)
  have pair: "stream_pair xor_env
       (createCipheriv xor_env ''aes-128-ctr'' (EVP_BytesToKey xor_env ''secret'' 16 16) sample_iv)
       (createDecipheriv xor_env ''aes-128-ctr'' (EVP_BytesToKey xor_env ''secret'' 16 16) sample_iv)"
    using xor_env_pair by (simp add: xor_env_def)
  have iv: "length sample_iv = 16" by (simp add: sample_iv_def)
  have mac: "16 \<le> length (hmac xor_env ''sha1'' (EVP_BytesToKey xor_env ''secret'' 16 16)
      (StreamEncrypt xor_env ''aes-128-ctr'' (EVP_BytesToKey xor_env ''secret'' 16 16) sample_iv
         (address_header sample_host [0, 80])))"
    by (simp add: xor_env_def checksum20_def)
  have h: "1 \<le> length sample_host" "length sample_host \<le> 255" by (simp_all add: sample_host_def)
  have p: "length [0, 80 :: byte] = 2" by simp
  have x0: "[104, 105] \<noteq> ([] :: buffer)" by simp
  have name: "Buffer_toString xor_env sample_host = ''a.io''" by code_simp
  have prt: "unat ([0, 80 :: byte] ! 0) * 256 + unat ([0, 80 :: byte] ! 1) = 80" by simp
  from round_trip [OF client server pw hc k pair iv mac h p x0,
      of "[]" "[Forward [1, 2], Backward [3], Forward [4, 5, 6]]"]
  have "\<exists>frame c1 s1.
        clientOut xor_env sample_iv c [104, 105] = (Inr frame, c1) \<and>
        serverIn xor_env s frame = (Inr (ConnectToDst ''a.io'' 80 [104, 105]), s1) \<and>
        fst (onConnected [104, 105] s1) = [104, 105] \<and>
        relay xor_env [] c1 (snd (onConnected [104, 105] s1))
            [Forward [1, 2], Backward [3], Forward [4, 5, 6]] =
          [Some [1, 2], Some [3], Some [4, 5, 6]]"
    by (simp only: name prt) simp
  with client server hc pair show ?thesis by blast
qed

text \<open>
  The claim as stated fails on a stream whose first chunk is empty: the server rejects
  the frame, the flag stays unset, and the next chunk is rejected as a short handshake,
  so nothing of the stream arrives.
\<close>

theorem empty_first_chunk_lost:
  "fst (clientOut xor_env sample_iv (sample_client sample_host) []) = Inr empty_data_frame \<and>
   fst (clientOut xor_env sample_iv
          (snd (clientOut xor_env sample_iv (sample_client sample_host) [])) [104, 105]) =
     Inr [239, 225] \<and>
   feed xor_env sample_server [empty_data_frame, [239, 225]] =
     [Inr (Failed (UnexpectedLength2 39 empty_data_frame)),
      Inr (Failed (UnexpectedLength1 2 [239, 225]))]"
  by code_simp

section \<open>A handshake frame in fragments\<close>

lemma tail_of_prefix:
  assumes pair: "stream_pair E (createCipheriv E m k iv) (createDecipheriv E m k iv)"
    and iv: "length iv = 16"
    and mac: "16 \<le> length (hmac E ''sha1'' k (StreamEncrypt E m k iv (address_header h p)))"
    and x0: "x0 \<noteq> []"
    and n: "32 \<le> n" "n \<le> length (spec_frame E m k iv h p x0)"
  shows "tail_of E m k (take n (spec_frame E m k iv h p x0)) = take (n - 32) (address_header h p @ x0)"
proof -
  let ?pt = "address_header h p @ x0"
  let ?ct = "StreamEncrypt E m k iv ?pt"
  let ?tag = "take 16 (hmac E ''sha1'' k (StreamEncrypt E m k iv (address_header h p)))"
  define f where "f = take n (spec_frame E m k iv h p x0)"
  define ct1 where "ct1 = take (n - 32) ?ct"
  have ltag: "length ?tag = 16" using mac by simp
  have frame: "spec_frame E m k iv h p x0 = iv @ ?tag @ ?ct"
    by (rule spec_frame_layout [OF x0])
  have f: "f = iv @ ?tag @ ct1"
    using n(1) iv ltag by (simp add: f_def ct1_def frame)
  have lct1: "length ct1 = n - 32"
    using n(2) iv ltag by (simp add: ct1_def frame)
  have t16: "take 16 f = iv" using iv by (simp add: f)
  have d32: "drop 32 f = ct1" using iv ltag by (simp add: f)
  have "fst (update (cipher_byte E) (createCipheriv E m k iv) ?pt) = ct1 @ drop (n - 32) ?ct"
    by (simp add: StreamEncrypt_def ct1_def)
  from stream_pair_split(1) [OF pair this]
  have "fst (update (decipher_byte E) (createDecipheriv E m k iv) ct1) = take (n - 32) ?pt"
    by (simp only: lct1)
  then have "tail_of E m k f = take (n - 32) ?pt"
    by (simp add: tail_of_def t16 d32)
  then show ?thesis by (simp only: f_def)
qed

lemma alen_of_prefix:
  assumes pair: "stream_pair E (createCipheriv E m k iv) (createDecipheriv E m k iv)"
    and iv: "length iv = 16"
    and mac: "16 \<le> length (hmac E ''sha1'' k (StreamEncrypt E m k iv (address_header h p)))"
    and h: "length h \<le> 255" and x0: "x0 \<noteq> []"
    and n: "33 \<le> n" "n \<le> length (spec_frame E m k iv h p x0)"
  shows "alen_of E m k (take n (spec_frame E m k iv h p x0)) = length h"
proof -
  have "32 \<le> n" using n(1) by simp
  from tail_of_prefix [OF pair iv mac x0 this n(2)]
  have "tail_of E m k (take n (spec_frame E m k iv h p x0)) =
      take (n - 32) (of_nat (length h) # h @ p @ x0)"
    by (simp add: address_header_def numberToBuffer_Suc_0)
  moreover obtain j where "n - 32 = Suc j" using n(1) by (cases "n - 32") auto
  ultimately show ?thesis using h by (simp add: alen_of_def unat_of_nat)
qed

lemma serverIn_done:
  assumes "isHandshakeDone s" and "decipher s = Some d"
  shows "serverIn E s buf =
     (Inr (Output (fst (update (decipher_byte E) d buf))),
      s\<lparr>decipher := Some (snd (update (decipher_byte E) d buf))\<rparr>)"
  using assms by (simp add: serverIn_def decrypt_def case_prod_beta)

lemma feed_decrypts:
  assumes "isHandshakeDone s" and "decipher s = Some d"
  shows "\<exists>ds. feed E s fs = map (\<lambda>x. Inr (Output x)) ds \<and>
           concat ds = fst (update (decipher_byte E) d (concat fs)) \<and>
           map length ds = map length fs"
  using assms
proof (induction fs arbitrary: s d)
  case Nil
  show ?case by simp
next
  case (Cons f fs)
  let ?s' = "s\<lparr>decipher := Some (snd (update (decipher_byte E) d f))\<rparr>"
  have "isHandshakeDone ?s'" "decipher ?s' = Some (snd (update (decipher_byte E) d f))"
    using Cons.prems by simp_all
  from Cons.IH [OF this] obtain ds where
    ds: "feed E ?s' fs = map (\<lambda>x. Inr (Output x)) ds"
      "concat ds = fst (update (decipher_byte E) (snd (update (decipher_byte E) d f)) (concat fs))"
      "map length ds = map length fs"
    by blast
  let ?d1 = "fst (update (decipher_byte E) d f)"
  have "feed E s (f # fs) = map (\<lambda>x. Inr (Output x)) (?d1 # ds)"
    using serverIn_done [OF Cons.prems, of E f] ds(1) by simp
  moreover have "concat (?d1 # ds) = fst (update (decipher_byte E) d (concat (f # fs)))"
    using ds(2) by (simp add: fst_update_append)
  moreover have "map length (?d1 # ds) = map length (f # fs)"
    using ds(3) by (simp add: length_update)
  ultimately show ?case by blast
qed

text \<open>
  C2, as the code has it. \<open>serverIn\<close> keeps no bytes from one call to the next. When a
  valid handshake frame arrives in fragments, the first fragment decides: with fewer than
  37 bytes it fails at the first length check and the state is the one before the call;
  with at least 37 bytes but no byte of \<open>DATA\<close> (at most \<open>35 + ALEN\<close> bytes) it fails
  at the second length check; and when it carries the whole address header and at least
  one byte of \<open>DATA\<close>, the handshake succeeds on it alone, with the host, the port and
  the part of \<open>DATA\<close> it carries, and the fragments read after the callback has run
  decrypt to the rest of \<open>DATA\<close>, fragment by fragment.
\<close>

theorem fragmented_handshake:
  assumes srv: "\<not> isHandshakeDone s" "key s = Some k" "cipherName s = m"
    and pair: "stream_pair E (createCipheriv E m k iv) (createDecipheriv E m k iv)"
    and iv: "length iv = 16"
    and mac: "16 \<le> length (hmac E ''sha1'' k (StreamEncrypt E m k iv (address_header h p)))"
    and h: "length h \<le> 255" and p: "length p = 2" and x0: "x0 \<noteq> []"
    and frags: "concat (f1 # fs) = spec_frame E m k iv h p x0"
  shows
    "(length f1 < 37 \<longrightarrow>
        serverIn E s f1 = (Inr (Failed (UnexpectedLength1 (length f1) f1)), s)) \<and>
     (37 \<le> length f1 \<and> length f1 \<le> 35 + length h \<longrightarrow>
        fst (serverIn E s f1) = Inr (Failed (UnexpectedLength2 (length f1) f1))) \<and>
     (37 \<le> length f1 \<and> 35 + length h < length f1 \<longrightarrow>
        (\<exists>ds. feed E s (f1 # fs) =
                Inr (ConnectToDst (Buffer_toString E h) (unat (p ! 0) * 256 + unat (p ! 1))
                       (take (length f1 - (35 + length h)) x0))
                # map (\<lambda>d. Inr (Output d)) ds \<and>
              take (length f1 - (35 + length h)) x0 @ concat ds = x0 \<and>
              map length ds = map length fs))"
proof -
  let ?frame = "spec_frame E m k iv h p x0"
  let ?n = "length f1"
  let ?pt = "address_header h p @ x0"
  let ?ct = "StreamEncrypt E m k iv ?pt"
  let ?d0 = "createDecipheriv E m k iv"
  have f1: "f1 = take ?n ?frame" and rest: "concat fs = drop ?n ?frame"
    using frags [symmetric] by simp_all
  have nle: "?n \<le> length ?frame"
    using frags [symmetric] by simp
  have short: "serverIn E s f1 = (Inr (Failed (UnexpectedLength1 ?n f1)), s)" if "?n < 37"
    using serverIn_below_37 [OF srv(1) that] .
  have middle: "fst (serverIn E s f1) = Inr (Failed (UnexpectedLength2 ?n f1))"
    if "37 \<le> ?n" "?n \<le> 35 + length h"
  proof -
    have "33 \<le> ?n" using that(1) by simp
    from alen_of_prefix [OF pair iv mac h x0 this nle] f1
    have "alen_of E m k f1 = length h" by simp
    with serverIn_first_chunk [OF srv(1,2) that(1), of E] that(2) srv(3) show ?thesis
      by (simp add: Let_def)
  qed
  have long: "\<exists>ds. feed E s (f1 # fs) =
                Inr (ConnectToDst (Buffer_toString E h) (unat (p ! 0) * 256 + unat (p ! 1))
                       (take (?n - (35 + length h)) x0))
                # map (\<lambda>d. Inr (Output d)) ds \<and>
              take (?n - (35 + length h)) x0 @ concat ds = x0 \<and>
              map length ds = map length fs"
    if n: "37 \<le> ?n" "35 + length h < ?n"
  proof -
    define ct1 where "ct1 = take (?n - 32) ?ct"
    define d1 where "d1 = snd (update (decipher_byte E) ?d0 ct1)"
    define s1 where "s1 = s\<lparr>cipher := Some (createCipheriv E m k iv), decipher := Some d1\<rparr>"
    define x1 where "x1 = take (?n - (35 + length h)) x0"
    have first: "serverIn E s f1 =
        (Inr (ConnectToDst (Buffer_toString E h) (unat (p ! 0) * 256 + unat (p ! 1)) x1), s1)"
      using serverIn_frame_prefix [OF srv pair iv mac h p x0 n nle] f1
      by (simp add: s1_def d1_def ct1_def x1_def)
    let ?s2 = "snd (onConnected x1 s1)"
    have s2: "isHandshakeDone ?s2" "decipher ?s2 = Some d1"
      by (simp_all add: onConnected_def s1_def)
    from feed_decrypts [OF s2, of E fs] obtain ds where
      ds: "feed E ?s2 fs = map (\<lambda>x. Inr (Output x)) ds"
        "concat ds = fst (update (decipher_byte E) d1 (concat fs))"
        "map length ds = map length fs"
      by blast
    have ltag: "length (take 16 (hmac E ''sha1'' k (StreamEncrypt E m k iv (address_header h p)))) = 16"
      using mac by simp
    have "concat fs = drop (?n - 32) ?ct"
      using n(1) iv ltag by (simp add: rest spec_frame_layout [OF x0])
    moreover have lct1: "length ct1 = ?n - 32"
      using nle iv ltag by (simp add: ct1_def spec_frame_layout [OF x0])
    moreover have "fst (update (cipher_byte E) (createCipheriv E m k iv) ?pt) =
        ct1 @ drop (?n - 32) ?ct"
      by (simp add: StreamEncrypt_def ct1_def)
    from stream_pair_split(2) [OF pair this]
    have "fst (update (decipher_byte E) d1 (drop (?n - 32) ?ct)) = drop (length ct1) ?pt"
      by (simp only: d1_def)
    ultimately have "concat ds = drop (?n - 32) ?pt"
      using ds(2) by simp
    moreover have "drop (?n - 32) ?pt = drop (?n - (35 + length h)) x0"
    proof -
      have "length (address_header h p) = 3 + length h"
        by (simp add: length_address_header p)
      moreover have "?n - 32 - (3 + length h) = ?n - (35 + length h)" by simp
      ultimately show ?thesis using n(2) by simp
    qed
    ultimately have "x1 @ concat ds = x0" by (simp add: x1_def)
    moreover have "feed E s (f1 # fs) =
        Inr (ConnectToDst (Buffer_toString E h) (unat (p ! 0) * 256 + unat (p ! 1)) x1)
        # map (\<lambda>d. Inr (Output d)) ds"
      using first ds(1) by simp
    ultimately show ?thesis using ds(3) unfolding x1_def by blast
  qed
  from short middle long show ?thesis by blast
qed

theorem fragmented_handshake_witness:
  "concat [take 40 sample_frame, drop 40 sample_frame] =
     spec_frame xor_env ''aes-128-ctr'' sample_key sample_iv sample_host [0, 80] [104, 105] \<and>
   serverIn xor_env sample_server (take 20 sample_frame) =
     (Inr (Failed (UnexpectedLength1 20 (take 20 sample_frame))), sample_server) \<and>
   fst (serverIn xor_env sample_server (take 38 sample_frame)) =
     Inr (Failed (UnexpectedLength2 38 (take 38 sample_frame))) \<and>
   (\<exists>ds. feed xor_env sample_server [take 40 sample_frame, drop 40 sample_frame] =
            Inr (ConnectToDst ''a.io'' 80 [104]) # map (\<lambda>d. Inr (Output d)) ds \<and>
          [104] @ concat ds = [104, 105] \<and> map length ds = [1])"
proof -
  have srv: "\<not> isHandshakeDone sample_server" "key sample_server = Some sample_key"
    "cipherName sample_server = ''aes-128-ctr''"
    by (simp_all add: sample_server_def)
  have pair: "stream_pair xor_env (createCipheriv xor_env ''aes-128-ctr'' sample_key sample_iv)
      (createDecipheriv xor_env ''aes-128-ctr'' sample_key sample_iv)"
    using xor_env_pair by (simp add: xor_env_def)
  have iv: "length sample_iv = 16" by (simp add: sample_iv_def)
  have mac: "16 \<le> length (hmac xor_env ''sha1'' sample_key
      (StreamEncrypt xor_env ''aes-128-ctr'' sample_key sample_iv (address_header sample_host [0, 80])))"
    by (simp add: xor_env_def checksum20_def)
  have h: "length sample_host \<le> 255" by (simp add: sample_host_def)
  have p: "length [0, 80 :: byte] = 2" by simp
  have x0: "[104, 105] \<noteq> ([] :: buffer)" by simp
  have frame: "spec_frame xor_env ''aes-128-ctr'' sample_key sample_iv sample_host [0, 80] [104, 105] =
      sample_frame"
    by code_simp
  have fr: "concat (take n sample_frame # [drop n sample_frame]) =
      spec_frame xor_env ''aes-128-ctr'' sample_key sample_iv sample_host [0, 80] [104, 105]" for n
    by (simp add: frame)
  have name: "Buffer_toString xor_env sample_host = ''a.io''" by code_simp
  have lens: "length sample_frame = 41" "length sample_host = 4"
    by (simp_all add: sample_frame_def sample_host_def)
  from fragmented_handshake [OF srv pair iv mac h p x0 fr [of 20]]
  have a: "serverIn xor_env sample_server (take 20 sample_frame) =
     (Inr (Failed (UnexpectedLength1 20 (take 20 sample_frame))), sample_server)"
    by (simp add: lens)
  from fragmented_handshake [OF srv pair iv mac h p x0 fr [of 38]]
  have b: "fst (serverIn xor_env sample_server (take 38 sample_frame)) =
     Inr (Failed (UnexpectedLength2 38 (take 38 sample_frame)))"
    by (simp add: lens)
  from fragmented_handshake [OF srv pair iv mac h p x0 fr [of 40]]
  have c: "\<exists>ds. feed xor_env sample_server [take 40 sample_frame, drop 40 sample_frame] =
            Inr (ConnectToDst ''a.io'' 80 [104]) # map (\<lambda>d. Inr (Output d)) ds \<and>
          [104] @ concat ds = [104, 105] \<and> map length ds = [1]"
    by (simp add: lens name)
  from a b c fr [of 40] show ?thesis by simp
qed

text \<open>
  The claim as stated fails: a frame that is accepted when it arrives in one chunk is
  rejected three times when it arrives as 20, 17 and 4 bytes, although 37 bytes have
  arrived after the second read.
\<close>

theorem fragments_not_buffered:
  "concat [take 20 sample_frame, take 17 (drop 20 sample_frame), drop 37 sample_frame] = sample_frame \<and>
   fst (serverIn xor_env sample_server sample_frame) = Inr (ConnectToDst ''a.io'' 80 [104, 105]) \<and>
   feed xor_env sample_server
       [take 20 sample_frame, take 17 (drop 20 sample_frame), drop 37 sample_frame] =
     [Inr (Failed (UnexpectedLength1 20 (take 20 sample_frame))),
      Inr (Failed (UnexpectedLength1 17 (take 17 (drop 20 sample_frame)))),
      Inr (Failed (UnexpectedLength1 4 (drop 37 sample_frame)))]"
  by code_simp

text \<open>
  The same holds whatever the cipher and the HMAC are: the frame built for an empty host
  and a first chunk of at least two bytes has \<open>ALEN = 0\<close>, and \<open>serverIn\<close> accepts
  it.
\<close>

corollary empty_host_accepted:
  assumes srv: "\<not> isHandshakeDone s" "key s = Some k" "cipherName s = m"
    and pair: "stream_pair E (createCipheriv E m k iv) (createDecipheriv E m k iv)"
    and iv: "length iv = 16"
    and mac: "16 \<le> length (hmac E ''sha1'' k (StreamEncrypt E m k iv (address_header [] p)))"
    and p: "length p = 2" and x0: "2 \<le> length x0"
  shows "alen_of E m k (spec_frame E m k iv [] p x0) = 0 \<and>
     fst (serverIn E s (spec_frame E m k iv [] p x0)) =
       Inr (ConnectToDst (Buffer_toString E []) (unat (p ! 0) * 256 + unat (p ! 1)) x0)"
proof -
  let ?frame = "spec_frame E m k iv [] p x0"
  have ne: "x0 \<noteq> []" using x0 by auto
  have ltag: "length (take 16 (hmac E ''sha1'' k (StreamEncrypt E m k iv (address_header [] p)))) = 16"
    using mac by simp
  have lframe: "length ?frame = 35 + length x0"
    using iv ltag
    by (simp only: spec_frame_layout [OF ne] length_append length_StreamEncrypt
        length_address_header p) simp
  have n: "37 \<le> length ?frame" "35 + length ([] :: buffer) < length ?frame"
    "length ?frame \<le> length ?frame"
    using x0 ne by (auto simp: lframe)
  have h: "length ([] :: buffer) \<le> 255" by simp
  have "33 \<le> length ?frame" using n(1) by simp
  from alen_of_prefix [OF pair iv mac h ne this n(3)]
  have "alen_of E m k ?frame = 0" by simp
  moreover from serverIn_frame_prefix [OF srv pair iv mac h p ne n]
  have "fst (serverIn E s ?frame) =
      Inr (ConnectToDst (Buffer_toString E []) (unat (p ! 0) * 256 + unat (p ! 1)) x0)"
    by (simp add: lframe)
  ultimately show ?thesis by simp
qed

section \<open>An empty first chunk\<close>

text \<open>
  C10, as the code has it. When the first \<open>clientOut\<close> call gets an empty buffer,
  \<open>encBuf.slice(0, -buffer.length)\<close> is the empty buffer: the tag of the frame is the
  HMAC of the empty string cut to 16 bytes, and the frame has \<open>35 + ALEN\<close> bytes.
  \<open>serverIn\<close> always rejects it: at the second length check when \<open>ALEN\<close> is 2 or
  more, and already at the first one, before it reads \<open>ALEN\<close>, when \<open>ALEN\<close> is 0 or 1,
  the frame then having fewer than 37 bytes.
\<close>

theorem empty_chunk_frame_rejected:
  assumes cl: "\<not> isHandshakeDone c" "key c = Some k" "host c = Some h" "port c = Some p"
      "cipherName c = m"
    and srv: "\<not> isHandshakeDone s" "key s = Some k" "cipherName s = m"
    and pair: "stream_pair E (createCipheriv E m k iv) (createDecipheriv E m k iv)"
    and iv: "length iv = 16"
    and mac: "16 \<le> length (hmac E ''sha1'' k [])"
    and h: "length h \<le> 255" and p: "length p = 2"
  shows
    "(let frame = iv @ slice_buf (hmac E ''sha1'' k []) 0 (int HMAC_LEN)
                     @ StreamEncrypt E m k iv (address_header h p)
      in fst (clientOut E iv c []) = Inr frame \<and>
         length frame = 35 + length h \<and>
         fst (serverIn E s frame) =
           Inr (Failed (if length h \<le> 1 then UnexpectedLength1 (35 + length h) frame
                        else UnexpectedLength2 (35 + length h) frame)))"
proof -
  let ?ct = "StreamEncrypt E m k iv (address_header h p)"
  let ?tag = "take 16 (hmac E ''sha1'' k [])"
  define frame where "frame = iv @ ?tag @ ?ct"
  have ltag: "length ?tag = 16" using mac by simp
  have out: "fst (clientOut E iv c []) = Inr frame"
    using clientOut_first [OF cl(1-4), of E iv "[]"]
    by (simp add: Let_def cl(5) frame_def StreamEncrypt_def)
  have len: "length frame = 35 + length h"
    using iv ltag
    by (simp only: frame_def length_append length_StreamEncrypt length_address_header p)
  have rej: "fst (serverIn E s frame) =
      Inr (Failed (if length h \<le> 1 then UnexpectedLength1 (35 + length h) frame
                   else UnexpectedLength2 (35 + length h) frame))"
  proof (cases "length h \<le> 1")
    case True
    then have "length frame < 37" using len by simp
    from serverIn_below_37 [OF srv(1) this, of E] True len show ?thesis by simp
  next
    case False
    then have long: "37 \<le> length frame" using len by simp
    have t16: "take 16 frame = iv" using iv by (simp add: frame_def)
    have d32: "drop 32 frame = ?ct" using iv ltag by (simp add: frame_def)
    have "tail_of E m k frame = address_header h p"
      using stream_pair_decrypt [OF pair, of "address_header h p"]
      by (simp add: tail_of_def t16 d32 StreamEncrypt_def)
    then have "alen_of E m k frame = length h"
      using h by (simp add: alen_of_def address_header_def numberToBuffer_Suc_0 unat_of_nat)
    with serverIn_first_chunk [OF srv(1,2) long, of E] False len srv(3) show ?thesis
      by (simp add: Let_def)
  qed
  have "slice_buf (hmac E ''sha1'' k []) 0 (int HMAC_LEN) = ?tag"
    by (simp add: HMAC_LEN_def slice_buf_consts)
  with out len rej show ?thesis by (simp add: Let_def frame_def)
qed

theorem empty_chunk_frame_rejected_witness:
  "stream_pair xor_env (createCipheriv xor_env ''aes-128-ctr'' sample_key sample_iv)
      (createDecipheriv xor_env ''aes-128-ctr'' sample_key sample_iv) \<and>
   length sample_iv = 16 \<and> 16 \<le> length (hmac xor_env ''sha1'' sample_key []) \<and>
   fst (clientOut xor_env sample_iv (sample_client sample_host) []) = Inr empty_data_frame \<and>
   length empty_data_frame = 35 + length sample_host \<and>
   fst (serverIn xor_env sample_server empty_data_frame) =
     Inr (Failed (UnexpectedLength2 39 empty_data_frame))"
proof -
  have cl: "\<not> isHandshakeDone (sample_client sample_host)"
    "key (sample_client sample_host) = Some sample_key"
    "host (sample_client sample_host) = Some sample_host"
    "port (sample_client sample_host) = Some [0, 80]"
    "cipherName (sample_client sample_host) = ''aes-128-ctr''"
    by (simp_all add: sample_client_def)
  have srv: "\<not> isHandshakeDone sample_server" "key sample_server = Some sample_key"
    "cipherName sample_server = ''aes-128-ctr''"
    by (simp_all add: sample_server_def)
  have pair: "stream_pair xor_env (createCipheriv xor_env ''aes-128-ctr'' sample_key sample_iv)
      (createDecipheriv xor_env ''aes-128-ctr'' sample_key sample_iv)"
    using xor_env_pair by (simp add: xor_env_def)
  have iv: "length sample_iv = 16" by (simp add: sample_iv_def)
  have mac: "16 \<le> length (hmac xor_env ''sha1'' sample_key [])"
    by (simp add: xor_env_def checksum20_def)
  have h: "length sample_host \<le> 255" by (simp add: sample_host_def)
  have p: "length [0, 80 :: byte] = 2" by simp
  have frame: "sample_iv @ slice_buf (hmac xor_env ''sha1'' sample_key []) 0 (int HMAC_LEN)
      @ StreamEncrypt xor_env ''aes-128-ctr'' sample_key sample_iv (address_header sample_host [0, 80]) =
      empty_data_frame"
    by code_simp
  have lh: "length sample_host = 4" by (simp add: sample_host_def)
  from empty_chunk_frame_rejected [OF cl srv pair iv mac h p]
  have "fst (clientOut xor_env sample_iv (sample_client sample_host) []) = Inr empty_data_frame \<and>
   length empty_data_frame = 35 + length sample_host \<and>
   fst (serverIn xor_env sample_server empty_data_frame) =
     Inr (Failed (UnexpectedLength2 39 empty_data_frame))"
    by (simp add: Let_def frame lh)
  with pair iv mac show ?thesis by simp
qed

text \<open>
  The claim as stated fails for a host of one byte: the frame has 36 bytes and is
  rejected by the first length check, not by the one after \<open>ALEN\<close>.
\<close>

theorem one_byte_host_first_check:
  "fst (clientOut xor_env sample_iv (sample_client [97]) []) = Inr one_byte_host_frame \<and>
   length one_byte_host_frame = 35 + length [97 :: byte] \<and>
   fst (serverIn xor_env sample_server one_byte_host_frame) =
     Inr (Failed (UnexpectedLength1 36 one_byte_host_frame))"
  by code_simp

section \<open>The handshake flag\<close>

lemma encrypt_flag: "isHandshakeDone (snd (encrypt E s buf)) = isHandshakeDone s"
  by (simp add: encrypt_def case_prod_beta split: option.splits)

lemma decrypt_flag: "isHandshakeDone (snd (decrypt E s buf)) = isHandshakeDone s"
  by (simp add: decrypt_def case_prod_beta split: option.splits)

lemma step_keeps_flag:
  assumes "isHandshakeDone s"
  shows "isHandshakeDone (step E s x)"
proof (cases x)
  case (ClientOut iv b)
  with assms show ?thesis by (simp add: clientOut_def encrypt_flag)
next
  case (ServerIn b)
  have "isHandshakeDone (snd (serverIn E s b)) = isHandshakeDone (snd (decrypt E s b))"
    using assms by (simp add: serverIn_def split: prod.splits sum.splits)
  with assms ServerIn show ?thesis by (simp add: decrypt_flag)
next
  case (ServerOut b)
  with assms show ?thesis by (simp add: serverOut_def encrypt_flag)
next
  case (ClientIn b)
  with assms show ?thesis by (simp add: clientIn_def decrypt_flag)
next
  case (OnConnected d)
  then show ?thesis by (simp add: onConnected_def)
qed

lemma flag_trace_done:
  assumes "isHandshakeDone s"
  shows "flag_trace E s xs = replicate (Suc (length xs)) True"
  using assms
proof (induction xs arbitrary: s)
  case Nil
  then show ?case by simp
next
  case (Cons x xs)
  from Cons.IH [OF step_keeps_flag [OF Cons.prems, of E x]] Cons.prems show ?case by simp
qed

lemma length_flag_trace: "length (flag_trace E s xs) = Suc (length xs)"
  by (induction xs arbitrary: s) simp_all

lemma flag_trace_shape:
  "\<exists>n. flag_trace E s xs = replicate n False @ replicate (Suc (length xs) - n) True"
proof (induction xs arbitrary: s)
  case Nil
  show ?case
  proof (cases "isHandshakeDone s")
    case True
    then have "flag_trace E s [] = replicate 0 False @ replicate (Suc (length ([] :: operation list)) - 0) True"
      by simp
    then show ?thesis by blast
  next
    case False
    then have "flag_trace E s [] = replicate 1 False @ replicate (Suc (length ([] :: operation list)) - 1) True"
      by simp
    then show ?thesis by blast
  qed
next
  case (Cons x xs)
  show ?case
  proof (cases "isHandshakeDone s")
    case True
    from flag_trace_done [OF this, of E "x # xs"]
    have "flag_trace E s (x # xs) =
        replicate 0 False @ replicate (Suc (length (x # xs)) - 0) True"
      by simp
    then show ?thesis by blast
  next
    case False
    from Cons [of "step E s x"] obtain n where
      n: "flag_trace E (step E s x) xs = replicate n False @ replicate (Suc (length xs) - n) True"
      by blast
    have "length (flag_trace E (step E s x) xs) = Suc (length xs)"
      by (rule length_flag_trace)
    with n have "n \<le> Suc (length xs)"
      by (metis length_append length_replicate le_add1)
    with n False have "flag_trace E s (x # xs) =
        replicate (Suc n) False @ replicate (Suc (length (x # xs)) - Suc n) True"
      by simp
    then show ?thesis by blast
  qed
qed

lemma rises_True: "rises (replicate m True) = 0"
proof -
  have "a" if "(a, b) \<in> set (zip (replicate m True) (tl (replicate m True)))" for a b
    using set_zip_leftD [OF that] by simp
  then show ?thesis by (auto simp: rises_def filter_empty_conv)
qed

lemma falls_True: "falls (replicate m True) = 0"
proof -
  have "b" if "(a, b) \<in> set (zip (replicate m True) (tl (replicate m True)))" for a b
  proof -
    from set_zip_rightD [OF that] have "b \<in> set (tl (replicate m True))" .
    then have "b \<in> set (replicate m True)" by (cases m) auto
    then show ?thesis by simp
  qed
  then show ?thesis by (auto simp: falls_def filter_empty_conv)
qed

lemma rises_blocks: "rises (replicate n False @ replicate m True) \<le> 1"
proof (induction n)
  case 0
  then show ?case by (simp add: rises_True)
next
  case (Suc n)
  show ?case
  proof (cases n)
    case 0
    have "rises (False # replicate m True) \<le> 1 + rises (replicate m True)"
      by (cases m) (simp_all add: rises_def)
    with 0 show ?thesis by (simp add: rises_True)
  next
    case (Suc j)
    then have "rises (replicate (Suc n) False @ replicate m True) =
        rises (replicate n False @ replicate m True)"
      by (simp add: rises_def)
    with Suc.IH show ?thesis by simp
  qed
qed

lemma falls_blocks: "falls (replicate n False @ replicate m True) = 0"
proof (induction n)
  case 0
  then show ?case by (simp add: falls_True)
next
  case (Suc n)
  have "falls (False # xs) = falls xs" for xs
    by (cases xs) (simp_all add: falls_def)
  with Suc show ?case by simp
qed

lemma blocks_sorted:
  assumes "i \<le> j" and "j < n + m" and "(replicate n False @ replicate m True) ! i"
  shows "(replicate n False @ replicate m True) ! j"
  using assms by (auto simp: nth_append split: if_splits)

text \<open>
  C7. A preset starts with the flag \<open>_isHandshakeDone\<close> unset. Along any sequence of
  \<open>clientOut\<close>, \<open>serverIn\<close>, \<open>serverOut\<close> and \<open>clientIn\<close> calls and of runs of
  \<open>onConnected\<close> callbacks, the flag goes from unset to set at most once and never from
  set to unset: once it is set, it is set after every later operation.
\<close>

theorem handshake_done_monotone:
  assumes "new_preset E is_client KEY ty h p method = Inr s0"
  shows "\<not> isHandshakeDone s0 \<and>
     hd (flag_trace E s0 xs) = False \<and>
     rises (flag_trace E s0 xs) \<le> 1 \<and>
     falls (flag_trace E s0 xs) = 0 \<and>
     (\<forall>i j. i \<le> j \<and> j < length (flag_trace E s0 xs) \<and> flag_trace E s0 xs ! i \<longrightarrow>
        flag_trace E s0 xs ! j)"
proof -
  have init: "\<not> isHandshakeDone s0"
    using assms by (auto simp: new_preset_def split: option.splits if_splits)
  then have start: "hd (flag_trace E s0 xs) = False" by (cases xs) simp_all
  from flag_trace_shape [of E s0 xs] obtain n where
    n: "flag_trace E s0 xs = replicate n False @ replicate (Suc (length xs) - n) True"
    by blast
  have "\<forall>i j. i \<le> j \<and> j < length (flag_trace E s0 xs) \<and> flag_trace E s0 xs ! i \<longrightarrow>
        flag_trace E s0 xs ! j"
    unfolding n using blocks_sorted [of _ _ n "Suc (length xs) - n"] by auto
  with init start rises_blocks [of n "Suc (length xs) - n"] falls_blocks [of n "Suc (length xs) - n"]
  show ?thesis by (simp add: n)
qed

theorem handshake_done_monotone_witness:
  "\<exists>s0. new_preset xor_env False (Some ''secret'') 3 [] [] (Some ''aes-128-ctr'') = Inr s0 \<and>
     flag_trace xor_env s0
       [ServerIn sample_frame, ServerIn [1, 2], OnConnected [104, 105], ServerIn [1, 2],
        ClientOut sample_iv [3]] =
       [False, False, False, True, True, True] \<and>
     rises (flag_trace xor_env s0
       [ServerIn sample_frame, ServerIn [1, 2], OnConnected [104, 105], ServerIn [1, 2],
        ClientOut sample_iv [3]]) \<le> 1 \<and>
     falls (flag_trace xor_env s0
       [ServerIn sample_frame, ServerIn [1, 2], OnConnected [104, 105], ServerIn [1, 2],
        ClientOut sample_iv [3]]) = 0"
proof -
  define s0 :: "(byte, byte) preset" where
    "s0 = \<lparr> isHandshakeDone = False, host = None, port = None,
       cipherName = ''aes-128-ctr'',
       key = Some [6, 7, 8, 9, 10, 11, 12, 13, 14, 15, 16, 17, 18, 19, 20, 21],
       cipher = None, decipher = None \<rparr>"
  have new: "new_preset xor_env False (Some ''secret'') 3 [] [] (Some ''aes-128-ctr'') = Inr s0"
    unfolding s0_def by code_simp
  have tr: "flag_trace xor_env s0
       [ServerIn sample_frame, ServerIn [1, 2], OnConnected [104, 105], ServerIn [1, 2],
        ClientOut sample_iv [3]] =
       [False, False, False, True, True, True]"
    unfolding s0_def by code_simp
  from handshake_done_monotone [OF new, of "[ServerIn sample_frame, ServerIn [1, 2],
      OnConnected [104, 105], ServerIn [1, 2], ClientOut sample_iv [3]]"] new tr
  show ?thesis by blast
qed

section \<open>The servers of a configuration\<close>

lemma assign_lookup:
  "assign config json name =
     (case map_of (rev json) name of None \<Rightarrow> config name | Some v \<Rightarrow> Some v)"
proof (induction json arbitrary: config)
  case Nil
  show ?case by (simp add: assign_def)
next
  case (Cons a json)
  obtain n v where a: "a = (n, v)" by (cases a)
  have step: "assign config (a # json) = assign (config(n \<mapsto> v)) json"
    by (simp add: assign_def a)
  have "assign (config(n \<mapsto> v)) json name =
      (case map_of (rev json) name of None \<Rightarrow> (config(n \<mapsto> v)) name | Some v' \<Rightarrow> Some v')"
    by (rule Cons)
  then show ?case
    unfolding step by (simp add: a map_add_def split: option.splits)
qed

lemma filter_enabled_strings:
  "filter_enabled (map JStr ss) =
     Inr (map JStr (filter (\<lambda>s. case s of [] \<Rightarrow> True | c # _ \<Rightarrow> c \<noteq> CHR ''-'') ss))"
  by (induction ss) simp_all

lemma cli_config_servers:
  "cli_config parseInt options ''servers'' = Some (get_prop options ''servers'')"
  by (simp add: cli_config_def)

lemma assemble_cases:
  "assemble parseInt load options =
     (if get_prop options ''config'' \<noteq> JStr [] then
        (case get_prop options ''config'' of
           JStr path \<Rightarrow>
             (case load path of
                None \<Rightarrow> Inl (Error (''fail to parse your '' @ quoted path))
              | Some json \<Rightarrow> Inr (assign (cli_config parseInt options) json))
         | _ \<Rightarrow> Inl TypeError)
      else Inr (cli_config parseInt options))"
  unfolding assemble_def cli_config_def Let_def ..

lemma get_prop_cli_servers:
  "get_prop (cli_config parseInt options) ''servers'' = get_prop options ''servers''"
  by (simp add: get_prop_def [of "cli_config parseInt options"] cli_config_servers)

lemma get_prop_assign:
  "get_prop (assign config json) name =
     (case map_of (rev json) name of None \<Rightarrow> get_prop config name | Some v \<Rightarrow> v)"
  by (simp add: get_prop_def [of "assign config json"] get_prop_def [of config] assign_lookup
      split: option.splits)

text \<open>
  C8. Let \<open>merged\<close> be the object \<open>obtainConfig\<close> has assembled before it
  post-processes it: its \<open>servers\<close> are those of the configuration file when a file is
  given and holds the property, and those of the command line otherwise. For any role but
  the server's, when \<open>servers\<close> is a list of strings, \<open>obtainConfig\<close> returns
  \<open>merged\<close> with \<open>servers\<close> replaced by its entries that do not start with \<open>-\<close>,
  in their order. For the server role it returns \<open>merged\<close> without the property
  \<open>servers\<close>.
\<close>

theorem obtainConfig_servers:
  assumes "assemble parseInt load options = Inr merged"
  shows
    "(type \<noteq> BOOTSTRAP_TYPE_SERVER \<and> get_prop merged ''servers'' = JArr (map JStr ss) \<longrightarrow>
        obtainConfig parseInt load type options =
          Inr (merged(''servers'' \<mapsto>
                 JArr (map JStr (filter (\<lambda>s. case s of [] \<Rightarrow> True | c # _ \<Rightarrow> c \<noteq> CHR ''-'') ss))))) \<and>
     (type = BOOTSTRAP_TYPE_SERVER \<longrightarrow>
        obtainConfig parseInt load type options = Inr (merged(''servers'' := None))) \<and>
     (get_prop options ''config'' = JStr [] \<longrightarrow>
        get_prop merged ''servers'' = get_prop options ''servers'') \<and>
     (\<forall>path json.
        get_prop options ''config'' = JStr path \<and> path \<noteq> [] \<and> load path = Some json \<longrightarrow>
        get_prop merged ''servers'' =
          (case map_of (rev json) ''servers'' of
             None \<Rightarrow> get_prop options ''servers''
           | Some v \<Rightarrow> v))"
proof -
  have client: "obtainConfig parseInt load type options =
      Inr (merged(''servers'' \<mapsto>
        JArr (map JStr (filter (\<lambda>s. case s of [] \<Rightarrow> True | c # _ \<Rightarrow> c \<noteq> CHR ''-'') ss))))"
    if "type \<noteq> BOOTSTRAP_TYPE_SERVER" "get_prop merged ''servers'' = JArr (map JStr ss)"
    using that by (simp add: obtainConfig_def assms post_process_def filter_enabled_strings)
  have server: "obtainConfig parseInt load type options = Inr (merged(''servers'' := None))"
    if "type = BOOTSTRAP_TYPE_SERVER"
    using that by (simp add: obtainConfig_def assms post_process_def)
  have cli: "get_prop merged ''servers'' = get_prop options ''servers''"
    if "get_prop options ''config'' = JStr []"
  proof -
    from assms that have "merged = cli_config parseInt options"
      by (simp add: assemble_cases)
    then show ?thesis by (simp add: get_prop_cli_servers)
  qed
  have from_file: "get_prop merged ''servers'' =
      (case map_of (rev json) ''servers'' of None \<Rightarrow> get_prop options ''servers'' | Some v \<Rightarrow> v)"
    if "get_prop options ''config'' = JStr path" "path \<noteq> []" "load path = Some json"
    for path json
  proof -
    from assms that have "merged = assign (cli_config parseInt options) json"
      by (simp add: assemble_cases)
    then show ?thesis
      by (simp add: get_prop_assign get_prop_cli_servers cong: option.case_cong)
  qed
  from client server cli from_file show ?thesis by blast
qed

theorem obtainConfig_servers_witness:
  "assemble (\<lambda>v. v) file_load file_options =
     Inr (assign (cli_config (\<lambda>v. v) file_options)
            [(''servers'', JArr (map JStr [''a:1'', ''-b:2'', ''c:3'']))]) \<and>
   obtainConfig (\<lambda>v. v) file_load 0 file_options =
     Inr ((assign (cli_config (\<lambda>v. v) file_options)
             [(''servers'', JArr (map JStr [''a:1'', ''-b:2'', ''c:3'']))])
          (''servers'' \<mapsto> JArr (map JStr [''a:1'', ''c:3'']))) \<and>
   obtainConfig (\<lambda>v. v) file_load BOOTSTRAP_TYPE_SERVER file_options =
     Inr ((assign (cli_config (\<lambda>v. v) file_options)
             [(''servers'', JArr (map JStr [''a:1'', ''-b:2'', ''c:3'']))])
          (''servers'' := None)) \<and>
   assemble (\<lambda>v. v) file_load cli_options = Inr (cli_config (\<lambda>v. v) cli_options) \<and>
   obtainConfig (\<lambda>v. v) file_load 0 cli_options =
     Inr ((cli_config (\<lambda>v. v) cli_options)(''servers'' \<mapsto> JArr (map JStr [''y:2''])))"
proof -
  let ?json = "[(''servers'', JArr (map JStr [''a:1'', ''-b:2'', ''c:3'']))]"
  let ?merged = "assign (cli_config (\<lambda>v. v) file_options) ?json"
  have cfg: "get_prop file_options ''config'' = JStr ''c.json''"
    by (simp add: get_prop_def file_options_def)
  have a: "assemble (\<lambda>v. v) file_load file_options = Inr ?merged"
    by (simp add: assemble_cases cfg file_load_def)
  have srv: "get_prop ?merged ''servers'' = JArr (map JStr [''a:1'', ''-b:2'', ''c:3''])"
    by (simp add: get_prop_assign)
  have ty: "(0 :: nat) \<noteq> BOOTSTRAP_TYPE_SERVER" by (simp add: BOOTSTRAP_TYPE_SERVER_def)
  note inst = obtainConfig_servers [OF a, where ss = "[''a:1'', ''-b:2'', ''c:3'']"]
  from inst [of 0] ty srv
  have b: "obtainConfig (\<lambda>v. v) file_load 0 file_options =
     Inr (?merged(''servers'' \<mapsto> JArr (map JStr [''a:1'', ''c:3''])))"
    by simp
  from inst [of BOOTSTRAP_TYPE_SERVER]
  have c: "obtainConfig (\<lambda>v. v) file_load BOOTSTRAP_TYPE_SERVER file_options =
     Inr (?merged(''servers'' := None))"
    by simp
  have cfg2: "get_prop cli_options ''config'' = JStr []"
    by (simp add: get_prop_def cli_options_def)
  have d: "assemble (\<lambda>v. v) file_load cli_options = Inr (cli_config (\<lambda>v. v) cli_options)"
    by (simp add: assemble_cases cfg2)
  have srv2: "get_prop cli_options ''servers'' = JArr (map JStr [''-x:1'', ''y:2''])"
    by (simp add: get_prop_def cli_options_def)
  from obtainConfig_servers [OF d, of 0 "[''-x:1'', ''y:2'']"] ty cfg2 srv2
  have e: "obtainConfig (\<lambda>v. v) file_load 0 cli_options =
     Inr ((cli_config (\<lambda>v. v) cli_options)(''servers'' \<mapsto> JArr (map JStr [''y:2''])))"
    by simp
  from a b c d e show ?thesis by simp
qed

end
